theory Spec2Isabelle
  imports Main "HOL-Library.Word"
begin

section \<open>XTable: a CRUD table in SRAM mirrored into a circular EEPROM buffer\<close>

text \<open>
  A shallow embedding of \<^verbatim>\<open>src/XTable.h\<close> (template class \<^verbatim>\<open>XTable<X>\<close>).

  \<^item> A byte (\<^verbatim>\<open>uint8_t\<close>, \<^verbatim>\<open>unsigned char\<close>) is an \<open>8 word\<close>. The member
    \<^verbatim>\<open>unsigned int counter\<close> is a \<open>16 word\<close>: the code targets AVR (it uses the
    avr-libc macro \<^verbatim>\<open>E2END\<close>), where \<^verbatim>\<open>unsigned int\<close> has 16 bits.
  \<^item> Values of type \<^verbatim>\<open>int\<close> (addresses, sizes) are \<open>int\<close>. On the device \<^verbatim>\<open>int\<close> has
    16 bits and \<^verbatim>\<open>size_t\<close> is \<^verbatim>\<open>unsigned int\<close>. An expression with a \<^verbatim>\<open>sizeof\<close> in
    it is computed in \<^verbatim>\<open>size_t\<close>, modulo \<open>2^16\<close>; where the code converts its value to
    \<^verbatim>\<open>int\<close> (the results of \<^verbatim>\<open>NextFreeAddressStorage\<close> and
    \<^verbatim>\<open>GetLocationFromStatus\<close>) the same 16 bits are read in two's complement, so that a
    sum from \<open>2^15\<close> on is negative. A sum of \<^verbatim>\<open>int\<close>s that leaves the range of
    \<^verbatim>\<open>int\<close> is undefined behaviour in C++; the model has the mathematical sum there.
  \<^item> The member \<^verbatim>\<open>eeprom\<close> is the memory of the device: a function from addresses to
    bytes. Reads and writes outside the device are not distinguished.
  \<^item> The runtime list is the list of its nodes in link order. A pointer to a node is the
    position of the node in the chain, \<open>None\<close> is \<^verbatim>\<open>NULL\<close>; \<^verbatim>\<open>first_record\<close> is
    \<^verbatim>\<open>NULL\<close> exactly when the list is empty, and \<^verbatim>\<open>p->next\<close> is the following position,
    \<^verbatim>\<open>NULL\<close> after the last node. Only \<^verbatim>\<open>InitBuffer\<close> assigns a \<^verbatim>\<open>next\<close> field, and it
    links every new node behind the node allocated before it.
  \<^item> Dereferencing \<^verbatim>\<open>NULL\<close> is undefined behaviour in C++; the model returns the value
    \<open>Inl NullDereference\<close> there.
\<close>

type_synonym byte = "8 word"
type_synonym unsigned_int = "16 word"

datatype fault = NullDereference

text \<open>
  \<^verbatim>\<open>struct Item { Y item; bool enabled; Item<Y> *next; }\<close> without its link, which is
  the position in the chain. \<^verbatim>\<open>struct XItem { Y item; bool enabled; }\<close> is the same record.
\<close>

record 'x Item =
  item :: 'x
  enabled :: bool

type_synonym 'x XItem = "'x Item"

text \<open>The data members of the class. \<open>nodes\<close> is the chain that starts at \<^verbatim>\<open>first_record\<close>.\<close>

record 'x XTable =
  xitem :: "'x XItem option"
  eeprom :: "int \<Rightarrow> byte"
  counter :: unsigned_int
  buffer_max_items :: unsigned_int
  nodes :: "'x Item list"
  current_record :: "nat option"
  new_record :: "nat option"
  eeprom_header_begin :: int
  eeprom_parameter_begin :: int
  eeprom_max_items :: int
  top_status_ptr :: int
  top_parameter_ptr :: int

definition BMK :: byte where
  "BMK = 0x42"

definition EMK :: byte where
  "EMK = 0x45"

subsection \<open>The parts that are not in the source file\<close>

text \<open>
  \<^verbatim>\<open>XEEPROM/XEEPROM.h\<close> and the macro \<^verbatim>\<open>E2END\<close> are included by the source but are not
  part of it. What depends on the template argument and on the device is collected in one
  record that the storage operations take as their first argument: the last EEPROM address,
  \<^verbatim>\<open>sizeof(XItem<X>)\<close>, and the bytes by which the driver stores and fetches one record.
\<close>

record 'x target =
  E2END :: int
  sizeof_XItem :: nat
  to_bytes :: "'x XItem \<Rightarrow> byte list"
  from_bytes :: "byte list \<Rightarrow> 'x XItem"

text \<open>
  Modelled from the spec: the byte-store driver \<^verbatim>\<open>XEEPROM\<close>, whose source is missing. The
  spec gives its contract as \<^verbatim>\<open>readByte(addr) -> byte\<close>, \<^verbatim>\<open>writeByte(addr, byte)\<close>,
  \<^verbatim>\<open>readRecord(addr) -> {payload, enabled}\<close>, \<^verbatim>\<open>writeRecord(addr, {payload, enabled})\<close>
  and \<^verbatim>\<open>fill(addr, length, value)\<close>, all synchronous. The memory is a function from
  addresses to bytes; a record occupies \<^verbatim>\<open>sizeof(XItem<X>)\<close> consecutive bytes.
\<close>

definition eeprom_read :: "(int \<Rightarrow> byte) \<Rightarrow> int \<Rightarrow> byte" where
  "eeprom_read m a = m a"

definition eeprom_write :: "(int \<Rightarrow> byte) \<Rightarrow> int \<Rightarrow> byte \<Rightarrow> (int \<Rightarrow> byte)" where
  "eeprom_write m a v = m(a := v)"

definition eeprom_Fill :: "(int \<Rightarrow> byte) \<Rightarrow> int \<Rightarrow> int \<Rightarrow> byte \<Rightarrow> (int \<Rightarrow> byte)" where
  "eeprom_Fill m a len v = (\<lambda>x. if a \<le> x \<and> x < a + len then v else m x)"

definition write_bytes :: "(int \<Rightarrow> byte) \<Rightarrow> int \<Rightarrow> byte list \<Rightarrow> (int \<Rightarrow> byte)" where
  "write_bytes m a bs = (\<lambda>x. if a \<le> x \<and> x < a + int (length bs) then bs ! nat (x - a) else m x)"

definition read_bytes :: "(int \<Rightarrow> byte) \<Rightarrow> int \<Rightarrow> nat \<Rightarrow> byte list" where
  "read_bytes m a n = map (\<lambda>k. m (a + int k)) [0..<n]"

definition eeprom_Write :: "'x target \<Rightarrow> (int \<Rightarrow> byte) \<Rightarrow> int \<Rightarrow> 'x XItem \<Rightarrow> (int \<Rightarrow> byte)" where
  "eeprom_Write P m a r = write_bytes m a (take (sizeof_XItem P) (to_bytes P r))"

definition eeprom_Read :: "'x target \<Rightarrow> (int \<Rightarrow> byte) \<Rightarrow> int \<Rightarrow> 'x XItem" where
  "eeprom_Read P m a = from_bytes P (read_bytes m a (sizeof_XItem P))"

subsection \<open>Construction\<close>

text \<open>
  \<^verbatim>\<open>Init()\<close> and the constructor. The constructor leaves the other members uninitialised:
  it is a function of the object as it is found, \<open>u\<close>, whose EEPROM is the device's.
\<close>

definition Init :: "'x XTable \<Rightarrow> 'x XTable" where
  "Init t = t\<lparr>current_record := None, new_record := None, counter := 0\<rparr>"

definition XTable_new :: "'x XTable \<Rightarrow> 'x XTable" where
  "XTable_new u = (Init u)\<lparr>nodes := [], eeprom_max_items := - 1\<rparr>"

text \<open>\<^verbatim>\<open>p->next\<close> for the node at position \<open>i\<close> of the chain.\<close>

definition next_ptr :: "'x XTable \<Rightarrow> nat \<Rightarrow> nat option" where
  "next_ptr t i = (if Suc i < length (nodes t) then Some (Suc i) else None)"

text \<open>\<^verbatim>\<open>first_record\<close>.\<close>

definition first_record :: "'x XTable \<Rightarrow> nat option" where
  "first_record t = (if nodes t = [] then None else Some 0)"

text \<open>Reading through a pointer: \<open>None\<close> when the pointer is \<^verbatim>\<open>NULL\<close> (or not a node).\<close>

definition deref :: "'x XTable \<Rightarrow> nat option \<Rightarrow> 'x Item option" where
  "deref t p = (case p of None \<Rightarrow> None
                | Some i \<Rightarrow> if i < length (nodes t) then Some (nodes t ! i) else None)"

subsection \<open>InitBuffer\<close>

text \<open>
  \<^verbatim>\<open>new\<close> returns \<^verbatim>\<open>NULL\<close> when the heap is exhausted and does not initialise the node.
  \<open>pool\<close> lists the contents of the blocks the allocator can still hand out, in the order
  it hands them out: the \<open>k\<close>-th allocation succeeds when \<open>k < length pool\<close>.

  The \<^verbatim>\<open>do ... while\<close> loop: \<open>it\<close> is the \<^verbatim>\<open>unsigned int\<close> counter; the comparison
  \<^verbatim>\<open>it < max_items\<close> converts \<^verbatim>\<open>max_items\<close> to \<^verbatim>\<open>unsigned int\<close>. The loop returns the
  table, the rest of the pool and \<open>it\<close>.
\<close>

definition to_unsigned :: "int \<Rightarrow> nat" where
  "to_unsigned n = nat (n mod 65536)"

function InitBuffer_loop ::
  "int \<Rightarrow> 'x Item list \<Rightarrow> nat \<Rightarrow> 'x XTable \<Rightarrow> 'x XTable \<times> 'x Item list \<times> nat" where
  "InitBuffer_loop max_items pool it t =
     (case pool of
        [] \<Rightarrow> (t\<lparr>new_record := None, current_record := None\<rparr>, pool, (it + 1) mod 65536)
      | b # pool' \<Rightarrow>
          (let t' = t\<lparr>nodes := nodes t @ [b],
                      new_record := Some (length (nodes t)),
                      current_record := Some (length (nodes t))\<rparr>;
               it' = (it + 1) mod 65536
           in if it' < to_unsigned max_items
              then InitBuffer_loop max_items pool' it' t'
              else (t', pool', it')))"
  by pat_completeness auto
termination
  by (relation "measure (\<lambda>(m, pool, it, t). length pool)") auto

declare InitBuffer_loop.simps [simp del]

definition InitBuffer ::
  "int \<Rightarrow> 'x Item list \<Rightarrow> 'x XTable \<Rightarrow> fault + (bool \<times> 'x XTable)" where
  "InitBuffer max_items pool t =
     (if first_record t \<noteq> None then Inr (False, t)
      else case pool of
        [] \<Rightarrow> Inr (False, t)
      | b # pool1 \<Rightarrow>
          (let t1 = t\<lparr>nodes := [b], current_record := Some 0\<rparr>;
               (t2, pool2, it) = InitBuffer_loop max_items pool1 0 t1
           in if it < to_unsigned max_items then Inr (False, t2)
              else if current_record t2 = None then Inl NullDereference
              else Inr (True, t2\<lparr>buffer_max_items := word_of_int max_items,
                                  xitem := (case pool2 of [] \<Rightarrow> None | x # _ \<Rightarrow> Some x)\<rparr>)))"

subsection \<open>The CRUD operations on the runtime list\<close>

text \<open>
  \<^verbatim>\<open>Insert\<close>. The \<^verbatim>\<open>while\<close> loop moves the cursor, from position \<open>i\<close>, over the nodes
  that are enabled and have a successor; \<open>Insert_scan\<close> returns where it stops. With
  \<^verbatim>\<open>first_record == NULL\<close> the \<^verbatim>\<open>if\<close> block is skipped and the statement after it
  dereferences the \<^verbatim>\<open>NULL\<close> cursor.
\<close>

function Insert_scan :: "'x XTable \<Rightarrow> nat \<Rightarrow> nat" where
  "Insert_scan t i =
     (if next_ptr t i \<noteq> None \<and> enabled (nodes t ! i) then Insert_scan t (Suc i) else i)"
  by pat_completeness auto
termination
  by (relation "measure (\<lambda>(t, i). length (nodes t) - i)")
     (auto simp: next_ptr_def split: if_splits)

declare Insert_scan.simps [simp del]

definition Insert :: "'x \<Rightarrow> 'x XTable \<Rightarrow> fault + (bool \<times> 'x XTable)" where
  "Insert x t =
     (case first_record t of
        None \<Rightarrow> Inl NullDereference
      | Some i0 \<Rightarrow>
          (let i = Insert_scan t i0;
               t1 = t\<lparr>current_record := Some i\<rparr>
           in if next_ptr t1 i = None then Inr (False, t1)
              else Inr (True, t1\<lparr>nodes := (nodes t1)[i := \<lparr>item = x, enabled = True\<rparr>],
                                  counter := counter t1 + 1\<rparr>)))"

text \<open>
  \<^verbatim>\<open>Select\<close> reads \<^verbatim>\<open>current_record->enabled\<close> without a test of the cursor. The result
  \<open>Inr None\<close> is the \<^verbatim>\<open>NULL\<close> result, \<open>Inr (Some x)\<close> the address of the payload \<open>x\<close>.
\<close>

definition Select :: "'x XTable \<Rightarrow> fault + 'x option" where
  "Select t =
     (case deref t (current_record t) of
        None \<Rightarrow> Inl NullDereference
      | Some n \<Rightarrow> if \<not> enabled n then Inr None else Inr (Some (item n)))"

definition Update :: "'x \<Rightarrow> 'x XTable \<Rightarrow> bool \<times> 'x XTable" where
  "Update x t =
     (case current_record t of
        None \<Rightarrow> (False, t)
      | Some i \<Rightarrow> (True, t\<lparr>nodes := (nodes t)[i := (nodes t ! i)\<lparr>item := x\<rparr>]\<rparr>))"

definition Delete :: "'x XTable \<Rightarrow> bool \<times> 'x XTable" where
  "Delete t =
     (case current_record t of
        None \<Rightarrow> (False, t)
      | Some i \<Rightarrow> (True, t\<lparr>nodes := (nodes t)[i := (nodes t ! i)\<lparr>enabled := False\<rparr>],
                          counter := counter t - 1\<rparr>))"

text \<open>
  \<^verbatim>\<open>Clean\<close>. The \<^verbatim>\<open>do ... while\<close> loop clears the flag of the node at the cursor and
  follows \<^verbatim>\<open>next\<close> until it is \<^verbatim>\<open>NULL\<close>; then \<^verbatim>\<open>Init()\<close>.
\<close>

function Clean_loop :: "'x XTable \<Rightarrow> nat \<Rightarrow> 'x XTable" where
  "Clean_loop t i =
     (let t' = t\<lparr>nodes := (nodes t)[i := (nodes t ! i)\<lparr>enabled := False\<rparr>],
                 current_record := next_ptr t i\<rparr>
      in case current_record t' of None \<Rightarrow> t' | Some j \<Rightarrow> Clean_loop t' j)"
  by pat_completeness auto
termination
  by (relation "measure (\<lambda>(t, i). length (nodes t) - i)")
     (auto simp: next_ptr_def split: if_splits)

declare Clean_loop.simps [simp del]

definition Clean :: "'x XTable \<Rightarrow> 'x XTable" where
  "Clean t = Init (case first_record t of None \<Rightarrow> t | Some i \<Rightarrow> Clean_loop t i)"

text \<open>
  \<^verbatim>\<open>Next\<close> steps to the successor and calls itself, for the effect on the cursor only, when
  the node it reaches is disabled. \<^verbatim>\<open>Top\<close> starts at the first node.
\<close>

function Next :: "'x XTable \<Rightarrow> bool \<times> 'x XTable" where
  "Next t =
     (if first_record t = None then (False, t)
      else case current_record t of
        None \<Rightarrow> (False, t)
      | Some i \<Rightarrow>
          (let t1 = t\<lparr>current_record := next_ptr t i\<rparr>;
               t2 = (case current_record t1 of
                       None \<Rightarrow> t1
                     | Some j \<Rightarrow> if \<not> enabled (nodes t1 ! j) then snd (Next t1) else t1)
           in (current_record t2 \<noteq> None, t2)))"
  by pat_completeness auto
termination
  by (relation "measure (\<lambda>t. case current_record t of None \<Rightarrow> 0
                               | Some i \<Rightarrow> length (nodes t) - i)")
     (auto simp: next_ptr_def split: if_splits)

declare Next.simps [simp del]

definition Top :: "'x XTable \<Rightarrow> bool \<times> 'x XTable" where
  "Top t =
     (case first_record t of
        None \<Rightarrow> (False, t)
      | Some i0 \<Rightarrow>
          (let t1 = t\<lparr>current_record := Some i0\<rparr>
           in if \<not> enabled (nodes t1 ! i0) then Next t1
              else (enabled (nodes t1 ! i0), t1)))"

definition Counter :: "'x XTable \<Rightarrow> unsigned_int" where
  "Counter t = counter t"

subsection \<open>Enumeration: what one call of Next does\<close>

text \<open>
  The first enabled position among \<open>js\<close>: the node \<^verbatim>\<open>Next\<close> stops at when \<open>js\<close> are the
  positions behind the cursor. It is used to show that the loops driven by \<^verbatim>\<open>Next\<close>
  terminate.
\<close>

definition first_enabled :: "'x XTable \<Rightarrow> nat list \<Rightarrow> nat option" where
  "first_enabled t js = List.find (\<lambda>j. enabled (nodes t ! j)) js"

definition cursor_rest :: "'x XTable \<Rightarrow> nat" where
  "cursor_rest t = (case current_record t of None \<Rightarrow> 0 | Some i \<Rightarrow> length (nodes t) - i)"

lemma Next_eq:
  "first_record t \<noteq> None \<Longrightarrow> current_record t = Some i \<Longrightarrow>
   Next t = (first_enabled t [Suc i..<length (nodes t)] \<noteq> None,
             t\<lparr>current_record := first_enabled t [Suc i..<length (nodes t)]\<rparr>)"
proof (induction t arbitrary: i rule: Next.induct)
  case (1 t)
  let ?n = "length (nodes t)"
  show ?case
  proof (cases "Suc i < ?n")
    case False
    with "1.prems" show ?thesis
      by (subst Next.simps) (auto simp: next_ptr_def first_enabled_def)
  next
    case True
    hence upt: "[Suc i..<?n] = Suc i # [Suc (Suc i)..<?n]"
      by (simp add: upt_conv_Cons)
    show ?thesis
    proof (cases "enabled (nodes t ! Suc i)")
      case True
      with \<open>Suc i < ?n\<close> "1.prems" upt show ?thesis
        by (subst Next.simps) (auto simp: next_ptr_def first_enabled_def)
    next
      case False
      let ?t1 = "t\<lparr>current_record := next_ptr t i\<rparr>"
      have c1: "current_record ?t1 = Some (Suc i)"
        using \<open>Suc i < ?n\<close> by (simp add: next_ptr_def)
      have f1: "first_record ?t1 \<noteq> None"
        using "1.prems" by (simp add: first_record_def)
      have "Next ?t1 = (first_enabled ?t1 [Suc (Suc i)..<length (nodes ?t1)] \<noteq> None,
              ?t1\<lparr>current_record := first_enabled ?t1 [Suc (Suc i)..<length (nodes ?t1)]\<rparr>)"
      proof (rule "1.IH" [OF "1.prems"(1) "1.prems"(2) refl c1 _ f1 c1])
        show "\<not> enabled (nodes ?t1 ! Suc i)"
          using False by simp
      qed
      with False \<open>Suc i < ?n\<close> "1.prems" upt show ?thesis
        by (subst Next.simps) (auto simp: next_ptr_def first_enabled_def)
    qed
  qed
qed

lemma first_enabled_Some:
  "first_enabled t js = Some j \<Longrightarrow> j \<in> set js \<and> enabled (nodes t ! j)"
  unfolding first_enabled_def
  by (induction js) (auto split: if_splits)

lemma Next_True:
  assumes "Next t = (True, t')"
  shows "\<exists>i j. current_record t = Some i \<and> current_record t' = Some j \<and> i < j
               \<and> j < length (nodes t) \<and> enabled (nodes t ! j) \<and> nodes t' = nodes t"
proof -
  from assms have f: "first_record t \<noteq> None"
    by (subst (asm) Next.simps) (auto split: if_splits)
  from assms obtain i where c: "current_record t = Some i"
    by (subst (asm) Next.simps) (auto split: if_splits option.splits)
  from assms Next_eq [OF f c]
  obtain j where j: "first_enabled t [Suc i..<length (nodes t)] = Some j"
    and t': "t' = t\<lparr>current_record := Some j\<rparr>"
    by auto
  from first_enabled_Some [OF j] c t' show ?thesis
    by auto
qed

lemma Next_decreases: "Next t = (True, t') \<Longrightarrow> cursor_rest t' < cursor_rest t"
  by (drule Next_True) (auto simp: cursor_rest_def)

subsection \<open>The circular buffer in EEPROM\<close>

text \<open>
  The conversion of a \<^verbatim>\<open>size_t\<close> value to \<^verbatim>\<open>int\<close>: the value modulo \<open>2^16\<close>, read
  as a signed 16-bit number. The \<^verbatim>\<open>size_t\<close> value itself is given by \<open>to_unsigned\<close>,
  the conversion to \<^verbatim>\<open>unsigned int\<close>.
\<close>

definition to_int :: "int \<Rightarrow> int" where
  "to_int n = sint (word_of_int n :: 16 word)"

text \<open>
  \<^verbatim>\<open>NextFreeAddressStorage\<close>: the sum contains \<^verbatim>\<open>sizeof(XItem<X>)\<close>, so it is a
  \<^verbatim>\<open>size_t\<close> that the \<^verbatim>\<open>return\<close> converts to \<^verbatim>\<open>int\<close>.
\<close>

definition NextFreeAddressStorage :: "'x target \<Rightarrow> 'x XTable \<Rightarrow> int" where
  "NextFreeAddressStorage P t =
     (if eeprom_max_items t < 0 then - 1
      else to_int (eeprom_max_items t * int (sizeof_XItem P) + eeprom_max_items t + 4
                   + eeprom_header_begin t))"

definition GetTopAddressStorage :: "'x XTable \<Rightarrow> int" where
  "GetTopAddressStorage t = top_parameter_ptr t"

definition IncCurrentLocation :: "'x XTable \<Rightarrow> int \<Rightarrow> int" where
  "IncCurrentLocation t curr_location =
     (if curr_location + 1 - 2 < eeprom_header_begin t + eeprom_max_items t
      then curr_location + 1 else eeprom_header_begin t + 2)"

text \<open>\<^verbatim>\<open>GetLocationFromStatus\<close> returns a \<^verbatim>\<open>size_t\<close> sum as an \<^verbatim>\<open>int\<close> in the same way.\<close>

definition GetLocationFromStatus :: "'x target \<Rightarrow> 'x XTable \<Rightarrow> int \<Rightarrow> int" where
  "GetLocationFromStatus P t curr_status_ptr =
     to_int ((curr_status_ptr - eeprom_header_begin t - 2) * int (sizeof_XItem P)
             + eeprom_parameter_begin t)"

text \<open>
  \<^verbatim>\<open>GetTopLocation\<close>. The loop condition is
  \<^verbatim>\<open>eeprom.read(next_location) == eeprom.read(current_location)+1\<close>: both bytes are
  promoted to \<^verbatim>\<open>int\<close> before the addition and the comparison, so the right-hand side
  ranges over 1..256 and is compared as an integer (\<open>uint\<close> is the value of a byte).
  The loop returns the final \<^verbatim>\<open>current_location\<close>. Every iteration moves to a byte that is
  larger by one, which bounds the number of iterations.
\<close>

function GetTopLocation_loop :: "'x XTable \<Rightarrow> int \<Rightarrow> int \<Rightarrow> int" where
  "GetTopLocation_loop t current_location next_location =
     (if uint (eeprom_read (eeprom t) next_location)
         = uint (eeprom_read (eeprom t) current_location) + 1
      then GetTopLocation_loop t next_location (IncCurrentLocation t next_location)
      else current_location)"
  by pat_completeness auto
termination
proof (relation "measure (\<lambda>(t, c, n). nat (256 - uint (eeprom_read (eeprom t) c)))")
  show "wf (measure (\<lambda>(t :: 'x XTable, c, n). nat (256 - uint (eeprom_read (eeprom t) c))))"
    by simp
next
  fix t :: "'x XTable" and current_location next_location :: int
  assume a: "uint (eeprom_read (eeprom t) next_location)
             = uint (eeprom_read (eeprom t) current_location) + 1"
  have "uint (eeprom_read (eeprom t) next_location) < 256"
    using uint_bounded [of "eeprom_read (eeprom t) next_location"] by simp
  with a show "((t, next_location, IncCurrentLocation t next_location),
                t, current_location, next_location)
               \<in> measure (\<lambda>(t, c, n). nat (256 - uint (eeprom_read (eeprom t) c)))"
    by simp
qed

declare GetTopLocation_loop.simps [simp del]

definition GetTopLocation :: "'x target \<Rightarrow> 'x XTable \<Rightarrow> 'x XTable" where
  "GetTopLocation P t =
     (let current_location = eeprom_header_begin t + 2;
          next_location = current_location + 1;
          t1 = t\<lparr>top_status_ptr := GetTopLocation_loop t current_location next_location\<rparr>
      in t1\<lparr>top_parameter_ptr := GetLocationFromStatus P t1 (top_status_ptr t1)\<rparr>)"

text \<open>
  \<^verbatim>\<open>PutTopLocation\<close>. \<^verbatim>\<open>current_value\<close> is a \<^verbatim>\<open>uint8_t\<close>, and the byte written is
  \<^verbatim>\<open>current_value+1\<close> converted to a byte: 255 is followed by 0.
\<close>

definition PutTopLocation :: "'x target \<Rightarrow> 'x XTable \<Rightarrow> 'x XTable" where
  "PutTopLocation P t =
     (let current_value = eeprom_read (eeprom t) (top_status_ptr t);
          t1 = t\<lparr>top_status_ptr := IncCurrentLocation t (top_status_ptr t)\<rparr>;
          t2 = t1\<lparr>eeprom := eeprom_write (eeprom t1) (top_status_ptr t1) (current_value + 1)\<rparr>
      in t2\<lparr>top_parameter_ptr := GetLocationFromStatus P t2 (top_status_ptr t2)\<rparr>)"

text \<open>The test of the two markers and the size byte, shared by the next two functions.\<close>

definition markers_match :: "'x XTable \<Rightarrow> bool" where
  "markers_match t \<longleftrightarrow>
     eeprom_read (eeprom t) (eeprom_header_begin t) = BMK
     \<and> eeprom_read (eeprom t) (eeprom_header_begin t + eeprom_max_items t + 2) = EMK
     \<and> uint (eeprom_read (eeprom t) (eeprom_header_begin t + 1)) = eeprom_max_items t"

text \<open>The same test on a memory: the region at \<open>start\<close> is formatted for \<open>cap\<close> items.\<close>

definition formatted :: "(int \<Rightarrow> byte) \<Rightarrow> int \<Rightarrow> int \<Rightarrow> bool" where
  "formatted m start cap \<longleftrightarrow>
     m start = BMK \<and> m (start + cap + 2) = EMK \<and> uint (m (start + 1)) = cap"

definition CheckStorage :: "'x target \<Rightarrow> 'x XTable \<Rightarrow> bool \<times> 'x XTable" where
  "CheckStorage P t =
     (if eeprom_max_items t \<le> 0 \<or> eeprom_max_items t > 255 \<or> eeprom_header_begin t < 0
      then (False, t)
      else if markers_match t then (True, GetTopLocation P t)
      else (False, t))"

text \<open>
  The length that \<^verbatim>\<open>InitStorage\<close> passes to \<^verbatim>\<open>eeprom.Fill\<close>:
  \<^verbatim>\<open>max_items*sizeof(XItem<X>) + max_items + 4\<close>, a \<^verbatim>\<open>size_t\<close>.
\<close>

definition region_size :: "'x target \<Rightarrow> int \<Rightarrow> int" where
  "region_size P max_items =
     int (to_unsigned (max_items * int (sizeof_XItem P) + max_items + 4))"

text \<open>
  \<^verbatim>\<open>InitStorage\<close>. The guard against the end of the device compares the \<^verbatim>\<open>int\<close> that
  \<^verbatim>\<open>NextFreeAddressStorage\<close> returns.
\<close>

definition InitStorage :: "'x target \<Rightarrow> int \<Rightarrow> int \<Rightarrow> 'x XTable \<Rightarrow> bool \<times> 'x XTable" where
  "InitStorage P start_location max_items t =
     (let t0 = t\<lparr>eeprom_max_items := - 1\<rparr>
      in if max_items \<le> 0 \<or> max_items > 255 \<or> start_location < 0 then (False, t0)
         else
           (let t1 = t0\<lparr>eeprom_header_begin := start_location,
                        eeprom_max_items := max_items,
                        eeprom_parameter_begin := start_location + max_items + 4\<rparr>
            in if NextFreeAddressStorage P t1 - 1 > E2END P then (False, t1)
               else if \<not> markers_match t1
               then
                 (let m1 = eeprom_Fill (eeprom t1) start_location
                             (region_size P max_items) 0x00;
                      m2 = eeprom_write m1 start_location BMK;
                      m3 = eeprom_write m2 (start_location + max_items + 2) EMK;
                      m4 = eeprom_write m3 (start_location + 1) (word_of_int max_items)
                  in CheckStorage P (t1\<lparr>eeprom := m4\<rparr>))
               else CheckStorage P t1))"

text \<open>
  The table with the three members that \<^verbatim>\<open>InitStorage\<close> assigns before it looks at the
  region, for statements about it.
\<close>

definition with_region :: "int \<Rightarrow> int \<Rightarrow> 'x XTable \<Rightarrow> 'x XTable" where
  "with_region start cap t =
     t\<lparr>eeprom_max_items := - 1\<rparr>\<lparr>eeprom_header_begin := start, eeprom_max_items := cap,
                                 eeprom_parameter_begin := start + cap + 4\<rparr>"

text \<open>
  \<^verbatim>\<open>SaveStorage\<close>. The \<^verbatim>\<open>do ... while (Next())\<close> loop runs after a successful
  \<^verbatim>\<open>Top()\<close>; \<^verbatim>\<open>xitem\<close> is the record allocated by \<^verbatim>\<open>InitBuffer\<close>. The count is
  written as a byte and compared, as an integer, with the \<^verbatim>\<open>unsigned int\<close> counter.
\<close>

function SaveStorage_loop :: "'x target \<Rightarrow> 'x XTable \<Rightarrow> int \<Rightarrow> int \<Rightarrow> fault + 'x XTable" where
  "SaveStorage_loop P t curr_status_ptr curr_parameter_ptr =
     (case xitem t of
        None \<Rightarrow> Inl NullDereference
      | Some _ \<Rightarrow>
         (case deref t (current_record t) of
            None \<Rightarrow> Inl NullDereference
          | Some n \<Rightarrow>
             (let t1 = t\<lparr>xitem := Some \<lparr>item = item n, enabled = enabled n\<rparr>\<rparr>;
                  t2 = t1\<lparr>eeprom := eeprom_Write P (eeprom t1) curr_parameter_ptr
                                       \<lparr>item = item n, enabled = enabled n\<rparr>\<rparr>;
                  sp = IncCurrentLocation t2 curr_status_ptr;
                  pp = GetLocationFromStatus P t2 sp
              in if fst (Next t2) then SaveStorage_loop P (snd (Next t2)) sp pp
                 else Inr (snd (Next t2)))))"
  by pat_completeness auto
termination
proof (relation "measure (\<lambda>(P, t, sp, pp). cursor_rest t)")
  show "wf (measure (\<lambda>(P :: 'x target, t :: 'x XTable, sp :: int, pp :: int). cursor_rest t))"
    by simp
next
  fix P :: "'x target" and t :: "'x XTable" and curr_status_ptr curr_parameter_ptr :: int
    and x2 n t1 t2 sp pp
  assume t1: "t1 = t\<lparr>xitem := Some \<lparr>item = item n, enabled = enabled n\<rparr>\<rparr>"
    and t2: "t2 = t1\<lparr>eeprom := eeprom_Write P (eeprom t1) curr_parameter_ptr
                                  \<lparr>item = item n, enabled = enabled n\<rparr>\<rparr>"
    and ok: "fst (Next t2)"
  from ok have "Next t2 = (True, snd (Next t2))"
    by (cases "Next t2") simp
  from Next_decreases [OF this]
  have "cursor_rest (snd (Next t2)) < cursor_rest t2" .
  moreover have "cursor_rest t2 = cursor_rest t"
    unfolding t1 t2 cursor_rest_def by (simp split: option.split)
  ultimately
  show "((P, snd (Next t2), sp, pp), P, t, curr_status_ptr, curr_parameter_ptr)
        \<in> measure (\<lambda>(P, t, sp, pp). cursor_rest t)"
    by simp
qed

declare SaveStorage_loop.simps [simp del]

definition SaveStorage :: "'x target \<Rightarrow> 'x XTable \<Rightarrow> fault + (bool \<times> 'x XTable)" where
  "SaveStorage P t =
     (case CheckStorage P t of
        (False, t0) \<Rightarrow> Inr (False, t0)
      | (True, t0) \<Rightarrow>
         (let t1 = PutTopLocation P t0;
              curr_status_ptr = top_status_ptr t1;
              curr_parameter_ptr = top_parameter_ptr t1
          in case (if fst (Top t1)
                   then SaveStorage_loop P (snd (Top t1)) curr_status_ptr curr_parameter_ptr
                   else Inr (snd (Top t1))) of
               Inl f \<Rightarrow> Inl f
             | Inr t2 \<Rightarrow>
                (let t3 = t2\<lparr>eeprom := eeprom_write (eeprom t2) (top_parameter_ptr t2 - 1)
                                          (ucast (counter t2))\<rparr>;
                     (dataCheck, t4) = CheckStorage P t3
                 in Inr (dataCheck
                           \<and> uint (eeprom_read (eeprom t4) (top_parameter_ptr t4 - 1))
                             = uint (Counter t4),
                         t4))))"

text \<open>
  \<^verbatim>\<open>LoadStorage\<close>. \<^verbatim>\<open>count\<close> and \<^verbatim>\<open>idx\<close> are bytes; \<^verbatim>\<open>idx\<close> is incremented only
  while it is below \<^verbatim>\<open>count\<close>, so it never wraps and both are given as numbers. The driver
  returns the address of the record it has read, which becomes \<^verbatim>\<open>xitem\<close>.
\<close>

function LoadStorage_loop ::
  "'x target \<Rightarrow> nat \<Rightarrow> nat \<Rightarrow> 'x XTable \<Rightarrow> int \<Rightarrow> int \<Rightarrow> fault + (bool \<times> 'x XTable)" where
  "LoadStorage_loop P count idx t curr_status_ptr curr_parameter_ptr =
     (if idx < count
      then
        (let r = eeprom_Read P (eeprom t) curr_parameter_ptr;
             t1 = t\<lparr>xitem := Some r\<rparr>
         in case Insert (item r) t1 of
              Inl f \<Rightarrow> Inl f
            | Inr (ok, t2) \<Rightarrow>
               if ok
               then
                 (case current_record t2 of
                    None \<Rightarrow> Inl NullDereference
                  | Some i \<Rightarrow>
                     (let t3 = t2\<lparr>nodes := (nodes t2)[i := (nodes t2 ! i)\<lparr>enabled := enabled r\<rparr>]\<rparr>;
                          sp = IncCurrentLocation t3 curr_status_ptr;
                          pp = GetLocationFromStatus P t3 sp
                      in LoadStorage_loop P count (Suc idx) t3 sp pp))
               else Inr (False, t2))
      else Inr (True, t))"
  by pat_completeness auto
termination
  by (relation "measure (\<lambda>(P, count, idx, t, sp, pp). count - idx)") auto

declare LoadStorage_loop.simps [simp del]

definition LoadStorage :: "'x target \<Rightarrow> 'x XTable \<Rightarrow> fault + (bool \<times> 'x XTable)" where
  "LoadStorage P t =
     (case CheckStorage P t of
        (False, t0) \<Rightarrow> Inr (False, t0)
      | (True, t0) \<Rightarrow>
         (let t1 = Clean t0;
              count = unat (eeprom_read (eeprom t1) (top_parameter_ptr t1 - 1))
          in LoadStorage_loop P count 0 t1 (top_status_ptr t1) (top_parameter_ptr t1)))"

subsection \<open>Sequences of calls\<close>

text \<open>
  A client of the class is a sequence of calls of its public operations. \<open>exec\<close> performs
  one call and returns the success flag with the new table: the flag of \<^verbatim>\<open>Select\<close> tells
  whether the result is not \<^verbatim>\<open>NULL\<close>, \<^verbatim>\<open>Clean\<close> returns nothing and counts as a success.
  \<open>run\<close> performs the calls in order and collects their flags; it stops at a fault.
\<close>

datatype 'x call =
    Call_Insert 'x
  | Call_Select
  | Call_Update 'x
  | Call_Delete
  | Call_Clean
  | Call_Top
  | Call_Next
  | Call_SaveStorage
  | Call_LoadStorage

fun exec :: "'x target \<Rightarrow> 'x call \<Rightarrow> 'x XTable \<Rightarrow> fault + (bool \<times> 'x XTable)" where
  "exec P (Call_Insert x) t = Insert x t"
| "exec P Call_Select t = (case Select t of Inl f \<Rightarrow> Inl f | Inr r \<Rightarrow> Inr (r \<noteq> None, t))"
| "exec P (Call_Update x) t = Inr (Update x t)"
| "exec P Call_Delete t = Inr (Delete t)"
| "exec P Call_Clean t = Inr (True, Clean t)"
| "exec P Call_Top t = Inr (Top t)"
| "exec P Call_Next t = Inr (Next t)"
| "exec P Call_SaveStorage t = SaveStorage P t"
| "exec P Call_LoadStorage t = LoadStorage P t"

fun run :: "'x target \<Rightarrow> 'x call list \<Rightarrow> 'x XTable \<Rightarrow> fault + (bool list \<times> 'x XTable)" where
  "run P [] t = Inr ([], t)"
| "run P (c # cs) t =
     (case exec P c t of
        Inl f \<Rightarrow> Inl f
      | Inr (ok, t1) \<Rightarrow>
         (case run P cs t1 of
            Inl f \<Rightarrow> Inl f
          | Inr (oks, t2) \<Rightarrow> Inr (ok # oks, t2)))"

fun is_Insert :: "'x call \<Rightarrow> bool" where
  "is_Insert (Call_Insert _) = True"
| "is_Insert _ = False"

fun is_Delete :: "'x call \<Rightarrow> bool" where
  "is_Delete Call_Delete = True"
| "is_Delete _ = False"

text \<open>How many of the calls selected by \<open>sel\<close> returned success.\<close>

fun successes :: "('x call \<Rightarrow> bool) \<Rightarrow> 'x call list \<Rightarrow> bool list \<Rightarrow> nat" where
  "successes sel (c # cs) (ok # oks) =
     (if sel c \<and> ok then Suc (successes sel cs oks) else successes sel cs oks)"
| "successes sel _ _ = 0"

text \<open>
  The enumeration a client performs with \<^verbatim>\<open>if (Top()) do ... while (Next())\<close>, as
  \<^verbatim>\<open>SaveStorage\<close> does: the positions of the cursor at which the body runs.
\<close>

function Next_all :: "'x XTable \<Rightarrow> nat list" where
  "Next_all t =
     (if fst (Next t) then the (current_record (snd (Next t))) # Next_all (snd (Next t))
      else [])"
  by pat_completeness auto
termination
proof (relation "measure cursor_rest")
  show "wf (measure (cursor_rest :: 'x XTable \<Rightarrow> nat))"
    by simp
next
  fix t :: "'x XTable"
  assume "fst (Next t)"
  hence "Next t = (True, snd (Next t))"
    by (cases "Next t") simp
  from Next_decreases [OF this] show "(snd (Next t), t) \<in> measure cursor_rest"
    by simp
qed

declare Next_all.simps [simp del]

definition Top_all :: "'x XTable \<Rightarrow> nat list" where
  "Top_all t =
     (if fst (Top t) then the (current_record (snd (Top t))) # Next_all (snd (Top t))
      else [])"

subsection \<open>A concrete table\<close>

text \<open>
  An instance for examples: payloads are single bytes, a record is stored as the payload
  byte followed by the flag byte, and the device is an ATmega328 (\<^verbatim>\<open>E2END\<close> is 1023).
  \<open>raw_object\<close> is an object before its constructor has run and \<open>raw_block\<close> a block as
  \<^verbatim>\<open>new\<close> returns it; the EEPROM is blank.
\<close>

definition byte_target :: "byte target" where
  "byte_target =
     \<lparr>E2END = 1023, sizeof_XItem = 2,
      to_bytes = (\<lambda>r. [item r, if enabled r then 1 else 0]),
      from_bytes = (\<lambda>bs. \<lparr>item = bs ! 0, enabled = (bs ! 1 \<noteq> 0)\<rparr>)\<rparr>"

definition raw_object :: "byte XTable" where
  "raw_object =
     \<lparr>xitem = None, eeprom = (\<lambda>a. 0), counter = 7, buffer_max_items = 0, nodes = [],
      current_record = Some 5, new_record = None, eeprom_header_begin = 0,
      eeprom_parameter_begin = 0, eeprom_max_items = 0, top_status_ptr = 0,
      top_parameter_ptr = 0\<rparr>"

definition raw_block :: "byte Item" where
  "raw_block = \<lparr>item = 9, enabled = True\<rparr>"

text \<open>\<^verbatim>\<open>InitBuffer(3)\<close> with five blocks of heap left, then \<^verbatim>\<open>Clean()\<close>.\<close>

definition raw_table3 :: "byte XTable" where
  "raw_table3 =
     snd (projr (InitBuffer 3 [raw_block, raw_block, raw_block, raw_block, raw_block]
                   (XTable_new raw_object)))"

definition table3 :: "byte XTable" where
  "table3 = Clean raw_table3"

text \<open>\<^verbatim>\<open>InitStorage(0, 3)\<close> on the blank EEPROM.\<close>

definition stored3 :: "byte XTable" where
  "stored3 = snd (InitStorage byte_target 0 3 table3)"

text \<open>One payload inserted into the cleaned table, before any storage is attached.\<close>

definition one_live :: "byte XTable" where
  "one_live = snd (projr (Insert 10 table3))"

text \<open>Two and three payloads inserted.\<close>

definition two_live :: "byte XTable" where
  "two_live = snd (projr (Insert 11 (snd (projr (Insert 10 stored3)))))"

definition full3 :: "byte XTable" where
  "full3 = snd (projr (Insert 12 two_live))"

text \<open>The full table after \<^verbatim>\<open>Top()\<close>, \<^verbatim>\<open>Next()\<close> and \<^verbatim>\<open>Delete()\<close>: the second node is free.\<close>

definition gappy :: "byte XTable" where
  "gappy = snd (Delete (snd (Next (snd (Top full3)))))"

text \<open>The table of two payloads after \<^verbatim>\<open>SaveStorage()\<close>.\<close>

definition saved3 :: "byte XTable" where
  "saved3 = snd (projr (SaveStorage byte_target two_live))"

text \<open>
  The status buffer of the same region after 256 calls of \<^verbatim>\<open>SaveStorage\<close>: the call
  \<open>k\<close> stamps the byte \<open>k mod 256\<close> on the status slot \<open>k mod 3\<close>, so the three slots
  hold 255, 0 (the last stamp) and 254. \<open>before_lap\<close> is the buffer one call earlier.
\<close>

definition lapped :: "byte XTable" where
  "lapped = two_live\<lparr>eeprom := (eeprom two_live)(2 := 255, 3 := 0, 4 := 254)\<rparr>"

definition before_lap :: "byte XTable" where
  "before_lap = two_live\<lparr>eeprom := (eeprom two_live)(2 := 255, 3 := 253, 4 := 254)\<rparr>"

lemmas concrete_defs =
  byte_target_def raw_object_def raw_block_def raw_table3_def table3_def stored3_def
  one_live_def
  two_live_def full3_def gappy_def lapped_def before_lap_def saved3_def

lemmas evaluate =
  XTable_new_def Init_def InitBuffer_def InitBuffer_loop.simps first_record_def next_ptr_def
  deref_def to_unsigned_def Insert_def Insert_scan.simps Select_def Update_def Delete_def
  Clean_def Clean_loop.simps Top_def Next.simps Counter_def
  InitStorage_def NextFreeAddressStorage_def to_int_def region_size_def markers_match_def
  eeprom_read_def
  eeprom_write_def eeprom_Fill_def BMK_def EMK_def CheckStorage_def GetTopLocation_def
  GetTopLocation_loop.simps IncCurrentLocation_def GetLocationFromStatus_def
  PutTopLocation_def SaveStorage_def SaveStorage_loop.simps
  LoadStorage_def LoadStorage_loop.simps eeprom_Write_def eeprom_Read_def write_bytes_def
  read_bytes_def Next_all.simps Top_all_def Let_def

section \<open>Properties\<close>

subsection \<open>Facts about the concrete table\<close>

lemma one_live_eval:
  "current_record one_live = Some 0 \<and> Counter one_live = 1
   \<and> map enabled (nodes one_live) = [True, False, False, False]"
  by (simp add: one_live_def concrete_defs evaluate)

lemma full3_eval:
  "nodes full3 = [\<lparr>item = 10, enabled = True\<rparr>, \<lparr>item = 11, enabled = True\<rparr>,
                  \<lparr>item = 12, enabled = True\<rparr>, \<lparr>item = 9, enabled = False\<rparr>]
   \<and> current_record full3 = Some 2 \<and> Counter full3 = 3"
  by (simp add: concrete_defs evaluate)

lemma stored3_eval:
  "InitStorage byte_target 0 3 table3 = (True, stored3)"
  by (simp add: concrete_defs evaluate)

lemma gappy_eval:
  "nodes gappy = [\<lparr>item = 10, enabled = True\<rparr>, \<lparr>item = 11, enabled = False\<rparr>,
                  \<lparr>item = 12, enabled = True\<rparr>, \<lparr>item = 9, enabled = False\<rparr>]
   \<and> current_record gappy = Some 1"
  by (simp add: concrete_defs evaluate)

lemma table3_eval:
  "nodes table3 = [\<lparr>item = 9, enabled = False\<rparr>, \<lparr>item = 9, enabled = False\<rparr>,
                   \<lparr>item = 9, enabled = False\<rparr>, \<lparr>item = 9, enabled = False\<rparr>]
   \<and> current_record table3 = None \<and> Counter table3 = 0"
  by (simp add: concrete_defs evaluate)

lemma raw_table3_eval:
  "InitBuffer 3 [raw_block, raw_block, raw_block, raw_block, raw_block] (XTable_new raw_object)
     = Inr (True, raw_table3)
   \<and> nodes raw_table3 = [raw_block, raw_block, raw_block, raw_block]
   \<and> current_record raw_table3 = Some 3 \<and> eeprom_max_items raw_table3 = - 1"
  by (simp add: concrete_defs evaluate)

lemma two_live_eval:
  "nodes two_live = [\<lparr>item = 10, enabled = True\<rparr>, \<lparr>item = 11, enabled = True\<rparr>,
                     \<lparr>item = 9, enabled = False\<rparr>, \<lparr>item = 9, enabled = False\<rparr>]
   \<and> current_record two_live = Some 1 \<and> Counter two_live = 2
   \<and> xitem two_live = Some raw_block
   \<and> eeprom_header_begin two_live = 0 \<and> eeprom_max_items two_live = 3
   \<and> eeprom_parameter_begin two_live = 7"
  by (simp add: concrete_defs evaluate)

subsection \<open>Null pointers\<close>

text \<open>
  Claim C9: every public operation reports failure through its return value and never
  faults; \<^verbatim>\<open>Select()\<close> with a null cursor returns a null result and \<^verbatim>\<open>Insert\<close> before
  \<^verbatim>\<open>InitBuffer\<close> returns failure. The code does neither: on a table that has only been
  constructed, and on any table after \<^verbatim>\<open>Clean()\<close>, \<^verbatim>\<open>Select()\<close> dereferences the null
  cursor, and \<^verbatim>\<open>Insert\<close> on a constructed table dereferences the null \<^verbatim>\<open>first_record\<close>.
\<close>

theorem null_cursor_is_dereferenced:
  "Select (XTable_new u) = Inl NullDereference
   \<and> Select (Clean t) = Inl NullDereference
   \<and> Insert x (XTable_new u) = Inl NullDereference"
  by (simp add: Select_def Insert_def XTable_new_def Clean_def Init_def deref_def
        first_record_def)

subsection \<open>Delete and the live counter\<close>

text \<open>
  Claim C10: \<^verbatim>\<open>Delete()\<close> returns success and decrements the unsigned live counter
  whenever the cursor points at a node, whatever the node's flag is; two consecutive calls
  with the cursor on the same node decrement the counter twice, and the counter of a table
  with one live item wraps around to the largest unsigned value.
\<close>

theorem Delete_ignores_enabled:
  assumes "current_record t = Some i"
  shows "fst (Delete t) \<and> Counter (snd (Delete t)) = Counter t - 1
         \<and> current_record (snd (Delete t)) = Some i
         \<and> fst (Delete (snd (Delete t)))
         \<and> Counter (snd (Delete (snd (Delete t)))) = Counter t - 2
         \<and> (Counter t = 1 \<longrightarrow> unat (Counter (snd (Delete (snd (Delete t))))) = 65535)"
  using assms
  by (simp add: Delete_def Counter_def unsigned_minus_1_eq_mask mask_eq_exp_minus_1)

theorem Delete_ignores_enabled_witness:
  "current_record one_live = Some 0 \<and> Counter one_live = 1
   \<and> \<not> enabled (nodes (snd (Delete one_live)) ! 0)
   \<and> fst (Delete (snd (Delete one_live)))
   \<and> unat (Counter (snd (Delete (snd (Delete one_live))))) = 65535"
  using Delete_ignores_enabled [of one_live 0]
  by (simp add: one_live_def concrete_defs evaluate)

subsection \<open>Insert into a full table\<close>

lemma Insert_scan_full:
  "i < length (nodes t) \<Longrightarrow> \<forall>j. i \<le> j \<and> Suc j < length (nodes t) \<longrightarrow> enabled (nodes t ! j)
   \<Longrightarrow> Insert_scan t i = length (nodes t) - 1"
proof (induction t i rule: Insert_scan.induct)
  case (1 t i)
  show ?case
  proof (cases "Suc i < length (nodes t)")
    case True
    with "1.prems" have en: "enabled (nodes t ! i)"
      by simp
    from True en have "Insert_scan t i = Insert_scan t (Suc i)"
      by (subst Insert_scan.simps) (simp add: next_ptr_def)
    also have "\<dots> = length (nodes t) - 1"
      using True en "1.prems" by (intro "1.IH") (auto simp: next_ptr_def)
    finally show ?thesis .
  next
    case False
    with "1.prems" show ?thesis
      by (subst Insert_scan.simps) (simp add: next_ptr_def)
  qed
qed

text \<open>
  Claim C5, as amended: when all nodes of the chain but the last are enabled (all capacity
  slots are in use), \<^verbatim>\<open>Insert\<close> returns failure; the payload and the flag of every node
  and the live counter are unchanged, and the cursor is left on the last node of the chain.
\<close>

theorem Insert_on_full_table:
  assumes "nodes t \<noteq> []" and "list_all enabled (butlast (nodes t))"
  shows "Insert x t = Inr (False, t\<lparr>current_record := Some (length (nodes t) - 1)\<rparr>)"
proof -
  from assms(2) have "\<forall>j. 0 \<le> j \<and> Suc j < length (nodes t) \<longrightarrow> enabled (nodes t ! j)"
    by (auto simp: list_all_length nth_butlast)
  with assms(1) have "Insert_scan t 0 = length (nodes t) - 1"
    by (intro Insert_scan_full) auto
  with assms(1) show ?thesis
    by (simp add: Insert_def first_record_def next_ptr_def)
qed

theorem Insert_on_full_table_witness:
  "nodes full3 \<noteq> [] \<and> list_all enabled (butlast (nodes full3))
   \<and> Insert 13 full3 = Inr (False, full3\<lparr>current_record := Some 3\<rparr>)"
  using Insert_on_full_table [of full3 13] full3_eval by simp

text \<open>
  Claim C5 as stated says that the failed call also leaves the cursor unchanged. On the
  full table of three payloads the cursor is on the third node before the call and on the
  fourth after it.
\<close>

theorem Insert_on_full_table_moves_cursor:
  "list_all enabled (butlast (nodes full3)) \<and> current_record full3 = Some 2
   \<and> Insert 13 full3 = Inr (False, full3\<lparr>current_record := Some 3\<rparr>)
   \<and> Insert 13 full3 \<noteq> Inr (False, full3)"
proof -
  have e: "nodes full3 \<noteq> [] \<and> list_all enabled (butlast (nodes full3))
           \<and> current_record full3 = Some 2 \<and> length (nodes full3) = 4"
    using full3_eval by simp
  hence i: "Insert 13 full3 = Inr (False, full3\<lparr>current_record := Some 3\<rparr>)"
    using Insert_scan_full [of 0 full3]
    by (auto simp: Insert_def first_record_def next_ptr_def list_all_length nth_butlast)
  have "full3\<lparr>current_record := Some 3\<rparr> \<noteq> full3"
  proof
    assume "full3\<lparr>current_record := Some 3\<rparr> = full3"
    hence "current_record (full3\<lparr>current_record := Some 3\<rparr>) = current_record full3"
      by simp
    with e show False
      by simp
  qed
  with e i show ?thesis
    by simp
qed

subsection \<open>Recovery of the write position\<close>

text \<open>
  Claim C2: the recovery walk advances while the next status byte equals the current one
  plus one in one-byte arithmetic, so that a step from 255 to 0 continues the walk. In the
  code the sum is an \<^verbatim>\<open>int\<close>: the walk never leaves a status byte 255, whatever follows it.
  The example is the status buffer of a region for three items after 256 saves; the last
  stamp, 0, is on the second slot and the walk stops on the first.
\<close>

theorem walk_stops_at_255:
  "eeprom_read (eeprom t) current_location = 255 \<Longrightarrow>
   GetTopLocation_loop t current_location next_location = current_location"
proof -
  assume a: "eeprom_read (eeprom t) current_location = 255"
  have "uint (eeprom_read (eeprom t) next_location) < 256"
    using uint_bounded [of "eeprom_read (eeprom t) next_location"] by simp
  with a show ?thesis
    by (subst GetTopLocation_loop.simps) simp
qed

theorem walk_stops_at_255_witness:
  "eeprom_read (eeprom lapped) 2 = 255 \<and> eeprom_read (eeprom lapped) 3 = 255 + 1
   \<and> GetTopLocation_loop lapped 2 3 = 2
   \<and> top_status_ptr (GetTopLocation byte_target lapped) = 2
   \<and> top_status_ptr (PutTopLocation byte_target (GetTopLocation byte_target before_lap)) = 3
   \<and> map (eeprom (PutTopLocation byte_target (GetTopLocation byte_target before_lap))) [2, 3, 4]
     = map (eeprom lapped) [2, 3, 4]"
  using walk_stops_at_255 [of lapped 2 3]
  by (simp add: concrete_defs evaluate)

subsection \<open>Formatting the storage region\<close>

lemma GetTopLocation_loop_cong:
  "eeprom t' = eeprom t \<Longrightarrow> eeprom_header_begin t' = eeprom_header_begin t \<Longrightarrow>
   eeprom_max_items t' = eeprom_max_items t \<Longrightarrow>
   GetTopLocation_loop t' c n = GetTopLocation_loop t c n"
proof (induction t c n rule: GetTopLocation_loop.induct)
  case (1 t c n)
  have inc: "IncCurrentLocation t' n = IncCurrentLocation t n"
    using "1.prems" by (simp add: IncCurrentLocation_def)
  show ?case
  proof (cases "uint (eeprom_read (eeprom t) n) = uint (eeprom_read (eeprom t) c) + 1")
    case True
    from "1.IH" [OF True "1.prems"] True "1.prems" inc show ?thesis
      by (subst GetTopLocation_loop.simps, subst (2) GetTopLocation_loop.simps) simp
  next
    case False
    with "1.prems" show ?thesis
      by (subst GetTopLocation_loop.simps, subst (2) GetTopLocation_loop.simps) simp
  qed
qed

lemma markers_match_formatted:
  "markers_match t = formatted (eeprom t) (eeprom_header_begin t) (eeprom_max_items t)"
  by (simp add: markers_match_def formatted_def eeprom_read_def)

lemma eeprom_GetTopLocation [simp]:
  "eeprom (GetTopLocation P t) = eeprom t"
  "eeprom_header_begin (GetTopLocation P t) = eeprom_header_begin t"
  "eeprom_max_items (GetTopLocation P t) = eeprom_max_items t"
  "eeprom_parameter_begin (GetTopLocation P t) = eeprom_parameter_begin t"
  by (simp_all add: GetTopLocation_def Let_def)

text \<open>Where the sums fit their types, the two conversions leave them as they are.\<close>

lemma to_int_id: "- 32768 \<le> n \<Longrightarrow> n < 32768 \<Longrightarrow> to_int n = n"
  by (simp add: to_int_def sint_sbintrunc' signed_take_bit_int_eq_self)

lemma region_size_id:
  "0 \<le> cap \<Longrightarrow> cap * int (sizeof_XItem P) + cap + 4 < 65536 \<Longrightarrow>
   region_size P cap = cap * int (sizeof_XItem P) + cap + 4"
  by (simp add: region_size_def to_unsigned_def)

text \<open>
  Claim C3, as amended: after a successful \<^verbatim>\<open>InitStorage(start, capacity)\<close> on a region
  that was not formatted, the begin marker 0x42 is at offset 0, the capacity byte at offset
  1, the end marker 0x45 at offset capacity+2, and the data records begin at offset
  capacity+4: the data buffer begins at start+capacity+4 and the record of status slot
  \<open>k\<close> is at start+capacity+4+k*sizeof, for every such address that an \<^verbatim>\<open>int\<close> holds.
  When the size of the region, capacity*sizeof+capacity+4, is one that a \<^verbatim>\<open>size_t\<close>
  holds, the status bytes at offsets 2 to capacity+1, the byte at offset capacity+3 and the
  data bytes are zero, and nothing outside the region is written.
\<close>

theorem InitStorage_layout:
  assumes ok: "InitStorage P start cap t = (True, t')"
    and fresh: "\<not> formatted (eeprom t) start cap"
  shows "eeprom t' start = 0x42
         \<and> uint (eeprom t' (start + 1)) = cap
         \<and> eeprom t' (start + cap + 2) = 0x45
         \<and> eeprom_parameter_begin t' = start + cap + 4
         \<and> (\<forall>k. 0 \<le> k \<and> start + cap + 4 + k * int (sizeof_XItem P) < 32768
                  \<longrightarrow> GetLocationFromStatus P t' (start + 2 + k)
                        = start + cap + 4 + k * int (sizeof_XItem P))
         \<and> (cap * int (sizeof_XItem P) + cap + 4 < 65536 \<longrightarrow>
               (\<forall>a. start + 2 \<le> a \<and> a \<le> start + cap + 1 \<longrightarrow> eeprom t' a = 0)
               \<and> (\<forall>a. start + cap + 3 \<le> a
                        \<and> a < start + cap + 4 + cap * int (sizeof_XItem P)
                        \<longrightarrow> eeprom t' a = 0)
               \<and> (\<forall>a. a < start \<or> start + cap + 4 + cap * int (sizeof_XItem P) \<le> a
                        \<longrightarrow> eeprom t' a = eeprom t a))"
proof -
  let ?sz = "int (sizeof_XItem P)"
  let ?t1 = "t\<lparr>eeprom_max_items := - 1\<rparr>\<lparr>eeprom_header_begin := start,
               eeprom_max_items := cap, eeprom_parameter_begin := start + cap + 4\<rparr>"
  define d where "d = region_size P cap"
  define m where "m = (eeprom_write (eeprom_write (eeprom_write
                        (eeprom_Fill (eeprom ?t1) start d 0)
                        start BMK) (start + cap + 2) EMK) (start + 1) (word_of_int cap))"
  from ok have steps: "0 < cap \<and> cap \<le> 255 \<and> 0 \<le> start
      \<and> (if \<not> markers_match ?t1 then CheckStorage P (?t1\<lparr>eeprom := m\<rparr>)
          else CheckStorage P ?t1) = (True, t')"
    unfolding InitStorage_def Let_def m_def d_def by (simp split: if_splits)
  hence valid: "0 < cap" "cap \<le> 255" "0 \<le> start"
    by simp_all
  from fresh have nm: "\<not> markers_match ?t1"
    by (simp add: markers_match_formatted)
  from steps nm have "CheckStorage P (?t1\<lparr>eeprom := m\<rparr>) = (True, t')"
    by simp
  hence t': "t' = GetTopLocation P (?t1\<lparr>eeprom := m\<rparr>)"
    by (auto simp: CheckStorage_def split: if_splits)
  have cap8: "uint (word_of_int cap :: byte) = cap"
    using valid by (simp add: uint_word_of_int)
  have m_at: "m a = (if a = start + 1 then word_of_int cap
                     else if a = start + cap + 2 then EMK
                     else if a = start then BMK
                     else if start \<le> a \<and> a < start + d then 0
                     else eeprom t a)" for a
    by (simp add: m_def eeprom_write_def eeprom_Fill_def)
  have e: "eeprom t' = m" and pb: "eeprom_parameter_begin t' = start + cap + 4"
    and hb: "eeprom_header_begin t' = start"
    by (simp_all add: t')
  have loc: "GetLocationFromStatus P t' (start + 2 + k) = to_int (start + cap + 4 + k * ?sz)"
    for k
    by (simp add: GetLocationFromStatus_def hb pb add.commute)
  have loc_plain: "GetLocationFromStatus P t' (start + 2 + k) = start + cap + 4 + k * ?sz"
    if "0 \<le> k" and "start + cap + 4 + k * ?sz < 32768" for k
  proof -
    from that(1) have "0 \<le> k * ?sz"
      by simp
    with valid that(2) have "to_int (start + cap + 4 + k * ?sz) = start + cap + 4 + k * ?sz"
      by (intro to_int_id) simp_all
    thus ?thesis
      by (simp only: loc)
  qed
  define c where "c = cap * ?sz"
  have c0: "0 \<le> c"
    using valid by (simp add: c_def)
  have size_plain: "d = c + cap + 4" if "c + cap + 4 < 65536"
    unfolding d_def c_def using valid that by (intro region_size_id) (simp_all add: c_def)
  have markers: "m start = 0x42" "uint (m (start + 1)) = cap" "m (start + cap + 2) = 0x45"
    using valid cap8 by (simp_all add: m_at BMK_def EMK_def)
  have zero: "(\<forall>a. start + 2 \<le> a \<and> a \<le> start + cap + 1 \<longrightarrow> m a = 0)
              \<and> (\<forall>a. start + cap + 3 \<le> a \<and> a < start + cap + 4 + c \<longrightarrow> m a = 0)
              \<and> (\<forall>a. a < start \<or> start + cap + 4 + c \<le> a \<longrightarrow> m a = eeprom t a)"
    if "c + cap + 4 < 65536"
    using valid c0 size_plain [OF that] by (auto simp: m_at)
  have records: "\<forall>k. 0 \<le> k \<and> start + cap + 4 + k * ?sz < 32768
                   \<longrightarrow> GetLocationFromStatus P t' (start + 2 + k) = start + cap + 4 + k * ?sz"
    using loc_plain by blast
  from zero have "c + cap + 4 < 65536 \<longrightarrow>
      (\<forall>a. start + 2 \<le> a \<and> a \<le> start + cap + 1 \<longrightarrow> m a = 0)
      \<and> (\<forall>a. start + cap + 3 \<le> a \<and> a < start + cap + 4 + c \<longrightarrow> m a = 0)
      \<and> (\<forall>a. a < start \<or> start + cap + 4 + c \<le> a \<longrightarrow> m a = eeprom t a)"
    by (rule impI)
  with markers records show ?thesis
    unfolding e pb c_def [symmetric] by (intro conjI) (assumption | rule refl)+
qed

theorem InitStorage_layout_witness:
  "InitStorage byte_target 0 3 table3 = (True, stored3)
   \<and> \<not> formatted (eeprom table3) 0 3
   \<and> 3 * int (sizeof_XItem byte_target) + 3 + 4 < 65536
   \<and> map (eeprom stored3) [0, 1, 2, 3, 4, 5, 6, 7, 8, 9, 10, 11, 12]
       = [0x42, 3, 0, 0, 0, 0x45, 0, 0, 0, 0, 0, 0, 0]
   \<and> eeprom_parameter_begin stored3 = 0 + 3 + 4
   \<and> map (\<lambda>k. GetLocationFromStatus byte_target stored3 (0 + 2 + k)) [0, 1, 2] = [7, 9, 11]"
proof -
  have f: "\<not> formatted (eeprom table3) 0 3"
    by (simp add: formatted_def concrete_defs evaluate)
  have s: "int (sizeof_XItem byte_target) = 2"
    by (simp add: byte_target_def)
  have m: "map (eeprom stored3) [0, 1, 2, 3, 4, 5, 6, 7, 8, 9, 10, 11, 12]
           = [0x42, 3, 0, 0, 0, 0x45, 0, 0, 0, 0, 0, 0, 0]"
    by (simp add: concrete_defs evaluate)
  from InitStorage_layout [OF stored3_eval f]
  have pb: "eeprom_parameter_begin stored3 = 0 + 3 + 4"
    and loc: "\<forall>k. 0 \<le> k \<and> 0 + 3 + 4 + k * 2 < 32768
                \<longrightarrow> GetLocationFromStatus byte_target stored3 (0 + 2 + k) = 0 + 3 + 4 + k * 2"
    unfolding s by blast+
  note l = loc [rule_format]
  from l [of 0] l [of 1] l [of 2]
  have "GetLocationFromStatus byte_target stored3 (0 + 2 + 0) = 0 + 3 + 4 + 0 * 2"
    and "GetLocationFromStatus byte_target stored3 (0 + 2 + 1) = 0 + 3 + 4 + 1 * 2"
    and "GetLocationFromStatus byte_target stored3 (0 + 2 + 2) = 0 + 3 + 4 + 2 * 2"
    by simp_all
  with pb stored3_eval f s m show ?thesis
    by simp
qed

text \<open>
  Claim C3 as stated puts the first data record at offset capacity+3. For a region of
  three items at address 0 the data buffer begins at address 7.
\<close>

theorem data_buffer_starts_after_spare_byte:
  "fst (InitStorage byte_target 0 3 table3)
   \<and> eeprom_parameter_begin stored3 = 0 + 3 + 4
   \<and> top_parameter_ptr stored3 = 0 + 3 + 4
   \<and> GetLocationFromStatus byte_target stored3 (0 + 2) \<noteq> 0 + 3 + 3"
  by (simp add: concrete_defs evaluate)

text \<open>
  The guard of \<^verbatim>\<open>InitStorage\<close> on a sum that does not fit an \<^verbatim>\<open>int\<close>: the region of
  three items at address 32760 would end at 32773, \<^verbatim>\<open>NextFreeAddressStorage\<close> returns
  -32763, and the call formats the region although the device ends at 1023.
\<close>

lemma InitStorage_accepts_wrapped_end:
  "NextFreeAddressStorage byte_target (snd (InitStorage byte_target 32760 3 table3)) = - 32763
   \<and> fst (InitStorage byte_target 32760 3 table3)
   \<and> map (eeprom (snd (InitStorage byte_target 32760 3 table3))) [32760, 32761, 32765]
       = [0x42, 3, 0x45]"
  by (simp add: concrete_defs evaluate)

lemma GetTopLocation_fixed:
  "top_status_ptr t = GetTopLocation_loop t (eeprom_header_begin t + 2) (eeprom_header_begin t + 2 + 1)
   \<Longrightarrow> top_parameter_ptr t = GetLocationFromStatus P t (top_status_ptr t)
   \<Longrightarrow> GetTopLocation P t = t"
  by (simp add: GetTopLocation_def Let_def GetLocationFromStatus_def)

lemma GetTopLocation_idem: "GetTopLocation P (GetTopLocation P t) = GetTopLocation P t"
proof (rule GetTopLocation_fixed)
  have "GetTopLocation_loop (GetTopLocation P t) c n = GetTopLocation_loop t c n" for c n
    by (rule GetTopLocation_loop_cong) simp_all
  thus "top_status_ptr (GetTopLocation P t) =
        GetTopLocation_loop (GetTopLocation P t) (eeprom_header_begin (GetTopLocation P t) + 2)
          (eeprom_header_begin (GetTopLocation P t) + 2 + 1)"
    by (simp add: GetTopLocation_def Let_def)
  show "top_parameter_ptr (GetTopLocation P t) =
        GetLocationFromStatus P (GetTopLocation P t) (top_status_ptr (GetTopLocation P t))"
    by (simp add: GetTopLocation_def Let_def GetLocationFromStatus_def)
qed

lemma CheckStorage_True:
  "CheckStorage P t = (True, t') \<Longrightarrow>
   t' = GetTopLocation P t \<and> markers_match t \<and> 0 < eeprom_max_items t
   \<and> eeprom_max_items t \<le> 255 \<and> 0 \<le> eeprom_header_begin t"
  by (auto simp: CheckStorage_def split: if_splits)

lemma markers_match_cong:
  "eeprom t' = eeprom t \<Longrightarrow> eeprom_header_begin t' = eeprom_header_begin t \<Longrightarrow>
   eeprom_max_items t' = eeprom_max_items t \<Longrightarrow> markers_match t' = markers_match t"
  by (simp add: markers_match_def)

lemma InitStorage_True:
  assumes ok: "InitStorage P start cap t = (True, t')"
  shows "0 < cap" and "cap \<le> 255" and "0 \<le> start"
    and "NextFreeAddressStorage P (with_region start cap u) - 1 \<le> E2END P"
    and "formatted (eeprom t') start cap"
    and "CheckStorage P t' = (True, t')"
    and "with_region start cap t' = t'"
proof -
  let ?t1 = "with_region start cap t"
  define m where "m = (eeprom_write (eeprom_write (eeprom_write
                        (eeprom_Fill (eeprom ?t1) start (region_size P cap) 0)
                        start BMK) (start + cap + 2) EMK) (start + 1) (word_of_int cap))"
  define t3 where "t3 = (if \<not> markers_match ?t1 then ?t1\<lparr>eeprom := m\<rparr> else ?t1)"
  from ok have steps: "0 < cap \<and> cap \<le> 255 \<and> 0 \<le> start
      \<and> NextFreeAddressStorage P ?t1 - 1 \<le> E2END P
      \<and> CheckStorage P t3 = (True, t')"
    unfolding InitStorage_def Let_def m_def t3_def with_region_def by (simp split: if_splits)
  from steps CheckStorage_True [of P t3 t']
  have t': "t' = GetTopLocation P t3" and mm: "markers_match t3"
    by simp_all
  have fields: "eeprom_header_begin t3 = start" "eeprom_max_items t3 = cap"
    "eeprom_parameter_begin t3 = start + cap + 4"
    by (simp_all add: t3_def with_region_def)
  have u1: "with_region start cap t' = t'"
    using fields by (simp add: t' GetTopLocation_def Let_def with_region_def)
  have mm': "markers_match t'"
    using mm by (simp add: t' markers_match_cong [of "GetTopLocation P t3" t3])
  hence fm: "formatted (eeprom t') start cap"
    using fields by (simp add: markers_match_formatted t')
  have nf: "NextFreeAddressStorage P (with_region start cap u) = NextFreeAddressStorage P ?t1"
    by (simp add: NextFreeAddressStorage_def with_region_def)
  have chk: "CheckStorage P t' = (True, t')"
    using steps mm' fields by (simp add: CheckStorage_def t' GetTopLocation_idem)
  from steps show "0 < cap" and "cap \<le> 255" and "0 \<le> start"
    by simp_all
  from steps nf show "NextFreeAddressStorage P (with_region start cap u) - 1 \<le> E2END P"
    by simp
  show "formatted (eeprom t') start cap" by (rule fm)
  show "CheckStorage P t' = (True, t')" by (rule chk)
  show "with_region start cap t' = t'" by (rule u1)
qed

lemma InitStorage_formatted:
  assumes "0 < cap" "cap \<le> 255" "0 \<le> start"
    and "NextFreeAddressStorage P (with_region start cap u) - 1 \<le> E2END P"
    and "formatted (eeprom u) start cap"
  shows "InitStorage P start cap u = (True, GetTopLocation P (with_region start cap u))"
proof -
  have "markers_match (with_region start cap u)"
    using assms(5) by (simp add: markers_match_formatted with_region_def)
  with assms(1-4) show ?thesis
    unfolding InitStorage_def Let_def with_region_def [symmetric]
    by (simp add: CheckStorage_def with_region_def)
qed

text \<open>
  Claim C8: a second \<^verbatim>\<open>InitStorage\<close> with the parameters of a first successful call, on
  the region as it is by then (formatted for these parameters, with whatever has been
  saved into it), triggers no reformat: it succeeds and changes no byte of the memory, and
  \<^verbatim>\<open>CheckStorage\<close> succeeds after the first call and after the second. Called again
  directly on the result of the first call, it returns that table unchanged.
\<close>

theorem InitStorage_twice:
  assumes first: "InitStorage P start cap t = (True, t1)"
    and region: "formatted (eeprom u) start cap"
  shows "fst (CheckStorage P t1)
         \<and> formatted (eeprom t1) start cap
         \<and> InitStorage P start cap t1 = (True, t1)
         \<and> fst (InitStorage P start cap u)
         \<and> eeprom (snd (InitStorage P start cap u)) = eeprom u
         \<and> fst (CheckStorage P (snd (InitStorage P start cap u)))"
proof -
  note g = InitStorage_True(1-3) [OF first]
  note n1 = InitStorage_True(4) [OF first, of t1]
  note nu = InitStorage_True(4) [OF first, of u]
  note f1 = InitStorage_True(5) [OF first]
  note c1 = InitStorage_True(6) [OF first]
  note w1 = InitStorage_True(7) [OF first]
  from InitStorage_formatted [OF g nu region]
  have u: "InitStorage P start cap u = (True, GetTopLocation P (with_region start cap u))" .
  from InitStorage_formatted [OF g n1 f1]
  have "InitStorage P start cap t1 = (True, GetTopLocation P (with_region start cap t1))" .
  also have "GetTopLocation P (with_region start cap t1) = t1"
  proof -
    from CheckStorage_True [OF c1] have "t1 = GetTopLocation P t1"
      by (rule conjunct1)
    thus ?thesis
      unfolding w1 by (rule sym)
  qed
  finally have again: "InitStorage P start cap t1 = (True, t1)" .
  have "markers_match (with_region start cap u)"
    using region by (simp add: markers_match_formatted with_region_def)
  hence "markers_match (GetTopLocation P (with_region start cap u))"
    by (simp add: markers_match_cong [of "GetTopLocation P (with_region start cap u)"
                                         "with_region start cap u"])
  hence "CheckStorage P (GetTopLocation P (with_region start cap u))
         = (True, GetTopLocation P (with_region start cap u))"
    using g by (simp add: CheckStorage_def with_region_def GetTopLocation_idem)
  with u again f1 c1 show ?thesis
    by (simp add: with_region_def)
qed

text \<open>
  The second call in the example comes after a save of two items: the region holds the
  stamp 1 on its second status slot, the count 2 and the two records.
\<close>

theorem InitStorage_twice_witness:
  "InitStorage byte_target 0 3 table3 = (True, stored3)
   \<and> formatted (eeprom saved3) 0 3
   \<and> map (eeprom saved3) [0, 1, 2, 3, 4, 5, 6, 7, 8, 9, 10, 11, 12]
       = [0x42, 3, 0, 1, 0, 0x45, 0, 0, 2, 10, 1, 11, 1]
   \<and> fst (CheckStorage byte_target stored3)
   \<and> InitStorage byte_target 0 3 stored3 = (True, stored3)
   \<and> fst (InitStorage byte_target 0 3 saved3)
   \<and> map (eeprom (snd (InitStorage byte_target 0 3 saved3))) [0, 1, 2, 3, 4, 5, 6, 7, 8, 9, 10, 11, 12]
       = [0x42, 3, 0, 1, 0, 0x45, 0, 0, 2, 10, 1, 11, 1]
   \<and> fst (CheckStorage byte_target (snd (InitStorage byte_target 0 3 saved3)))"
proof -
  have f: "formatted (eeprom saved3) 0 3"
    by (simp add: formatted_def saved3_def concrete_defs evaluate)
  have m: "map (eeprom saved3) [0, 1, 2, 3, 4, 5, 6, 7, 8, 9, 10, 11, 12]
           = [0x42, 3, 0, 1, 0, 0x45, 0, 0, 2, 10, 1, 11, 1]"
    by (simp add: saved3_def concrete_defs evaluate)
  from InitStorage_twice [OF stored3_eval f] stored3_eval f m show ?thesis
    by simp
qed

subsection \<open>Enumeration with Top and Next\<close>

lemma find_upt_filter:
  "List.find P [a..<n] = Some j \<Longrightarrow> filter P [a..<n] = j # filter P [Suc j..<n]"
proof (induction "n - a" arbitrary: a)
  case 0
  then show ?case by simp
next
  case (Suc d)
  hence "a < n" by simp
  hence upt: "[a..<n] = a # [Suc a..<n]"
    by (simp add: upt_conv_Cons)
  show ?case
  proof (cases "P a")
    case True
    with Suc.prems upt show ?thesis by simp
  next
    case False
    with Suc.prems upt have "List.find P [Suc a..<n] = Some j" by simp
    moreover from Suc.hyps(2) have "d = n - Suc a" by simp
    ultimately have "filter P [Suc a..<n] = j # filter P [Suc j..<n]"
      by (rule Suc.hyps(1) [rotated])
    with False upt show ?thesis by simp
  qed
qed

lemma find_None_filter: "List.find P xs = None \<Longrightarrow> filter P xs = []"
  by (simp add: find_None_iff filter_empty_conv)

lemma Next_all_eq:
  "first_record t \<noteq> None \<Longrightarrow> current_record t = Some i \<Longrightarrow>
   Next_all t = filter (\<lambda>j. enabled (nodes t ! j)) [Suc i..<length (nodes t)]"
proof (induction t arbitrary: i rule: Next_all.induct)
  case (1 t)
  let ?fe = "first_enabled t [Suc i..<length (nodes t)]"
  note nx = Next_eq [OF "1.prems"]
  show ?case
  proof (cases ?fe)
    case None
    with nx have "Next_all t = []"
      by (subst Next_all.simps) simp
    with None show ?thesis
      by (simp add: first_enabled_def find_None_filter)
  next
    case (Some j)
    let ?t' = "t\<lparr>current_record := Some j\<rparr>"
    from Some nx have n: "Next t = (True, ?t')" by simp
    hence "Next_all t = j # Next_all ?t'"
      by (subst Next_all.simps) simp
    also have "Next_all ?t' = filter (\<lambda>j. enabled (nodes ?t' ! j)) [Suc j..<length (nodes ?t')]"
      using n "1.prems" "1.IH" [of j] by (simp add: first_record_def)
    finally show ?thesis
      using find_upt_filter [of "\<lambda>j. enabled (nodes t ! j)" "Suc i" "length (nodes t)" j] Some
      by (simp add: first_enabled_def)
  qed
qed

lemma Top_all_eq:
  "Top_all t = filter (\<lambda>i. enabled (nodes t ! i)) [0..<length (nodes t)]"
proof (cases "nodes t = []")
  case True
  thus ?thesis by (simp add: Top_all_def Top_def first_record_def)
next
  case False
  let ?t0 = "t\<lparr>current_record := Some 0\<rparr>"
  from False have upt: "[0..<length (nodes t)] = 0 # [Suc 0..<length (nodes t)]"
    by (simp add: upt_conv_Cons)
  have na: "Next_all ?t0 = filter (\<lambda>j. enabled (nodes t ! j)) [Suc 0..<length (nodes t)]"
    using False Next_all_eq [of ?t0 0] by (simp add: first_record_def)
  show ?thesis
  proof (cases "enabled (nodes t ! 0)")
    case True
    with False na upt show ?thesis
      by (simp add: Top_all_def Top_def first_record_def)
  next
    case en: False
    with False have "Top t = Next ?t0"
      by (simp add: Top_def first_record_def)
    moreover have "Next_all ?t0 =
        (if fst (Next ?t0) then the (current_record (snd (Next ?t0))) # Next_all (snd (Next ?t0))
         else [])"
      by (rule Next_all.simps)
    ultimately have "Top_all t = Next_all ?t0"
      by (simp add: Top_all_def)
    with en na upt show ?thesis by simp
  qed
qed

lemma filter_positions:
  "map ((!) xs) (filter (\<lambda>i. P (xs ! i)) [0..<length xs]) = filter P xs"
proof -
  have "filter P (map ((!) xs) [0..<length xs]) = filter P xs"
    by (simp add: map_nth)
  thus ?thesis by (simp add: filter_map comp_def)
qed

lemma filter_drop_empty:
  "filter P (drop k xs) = [] \<longleftrightarrow> List.find (\<lambda>j. P (xs ! j)) [k..<length xs] = None"
proof -
  have "(\<forall>x\<in>set (drop k xs). \<not> P x) \<longleftrightarrow> (\<forall>j. k \<le> j \<and> j < length xs \<longrightarrow> \<not> P (xs ! j))"
  proof
    assume a: "\<forall>x\<in>set (drop k xs). \<not> P x"
    show "\<forall>j. k \<le> j \<and> j < length xs \<longrightarrow> \<not> P (xs ! j)"
    proof (intro allI impI)
      fix j assume j: "k \<le> j \<and> j < length xs"
      hence "drop k xs ! (j - k) = xs ! j" by simp
      moreover from j have "j - k < length (drop k xs)" by auto
      ultimately have "xs ! j \<in> set (drop k xs)"
        by (metis nth_mem)
      with a show "\<not> P (xs ! j)" by blast
    qed
  next
    assume a: "\<forall>j. k \<le> j \<and> j < length xs \<longrightarrow> \<not> P (xs ! j)"
    show "\<forall>x\<in>set (drop k xs). \<not> P x"
    proof
      fix x assume "x \<in> set (drop k xs)"
      then obtain m where m: "m < length (drop k xs)" "x = drop k xs ! m"
        by (auto simp: in_set_conv_nth)
      hence "x = xs ! (k + m)" "k + m < length xs" by auto
      with a show "\<not> P x" by auto
    qed
  qed
  thus ?thesis
    by (auto simp: filter_empty_conv find_None_iff)
qed

text \<open>
  Claim C7: \<^verbatim>\<open>Top()\<close> followed by repeated \<^verbatim>\<open>Next()\<close> visits exactly the enabled nodes
  of the chain, in chain order; \<^verbatim>\<open>Top()\<close> returns failure exactly when no node is enabled
  (an empty chain included), and \<^verbatim>\<open>Next()\<close> returns failure exactly when the cursor is
  null or no enabled node follows it.
\<close>

theorem Top_Next_enumerate:
  "Top_all t = filter (\<lambda>i. enabled (nodes t ! i)) [0..<length (nodes t)]
   \<and> (fst (Top t) \<longleftrightarrow> filter enabled (nodes t) \<noteq> [])
   \<and> (fst (Next t) \<longleftrightarrow>
        (case current_record t of None \<Rightarrow> False
         | Some i \<Rightarrow> filter enabled (drop (Suc i) (nodes t)) \<noteq> []))"
proof (intro conjI)
  show "Top_all t = filter (\<lambda>i. enabled (nodes t ! i)) [0..<length (nodes t)]"
    by (rule Top_all_eq)
  have "fst (Top t) \<longleftrightarrow> Top_all t \<noteq> []"
    by (simp add: Top_all_def)
  also have "\<dots> \<longleftrightarrow> map ((!) (nodes t)) (Top_all t) \<noteq> []"
    by simp
  also have "\<dots> \<longleftrightarrow> filter enabled (nodes t) \<noteq> []"
    by (simp only: Top_all_eq filter_positions)
  finally show "fst (Top t) \<longleftrightarrow> filter enabled (nodes t) \<noteq> []" .
  show "fst (Next t) \<longleftrightarrow>
        (case current_record t of None \<Rightarrow> False
         | Some i \<Rightarrow> filter enabled (drop (Suc i) (nodes t)) \<noteq> [])"
  proof (cases "current_record t")
    case None
    thus ?thesis by (subst Next.simps) simp
  next
    case (Some i)
    show ?thesis
    proof (cases "nodes t = []")
      case True
      with Some show ?thesis
        by (subst Next.simps) (simp add: first_record_def)
    next
      case False
      hence "first_record t \<noteq> None" by (simp add: first_record_def)
      from Next_eq [OF this Some] Some show ?thesis
        by (simp add: filter_drop_empty first_enabled_def)
    qed
  qed
qed

theorem Top_Next_enumerate_witness:
  "Top_all gappy = [0, 2] \<and> fst (Top gappy) \<and> fst (Next gappy)
   \<and> \<not> fst (Next (snd (Next gappy)))
   \<and> Top_all table3 = [] \<and> \<not> fst (Top table3)"
proof -
  have "[0..<4] = [0, 1, 2, 3]"
    by (simp add: upt_rec)
  moreover have "snd (Next gappy) = gappy\<lparr>current_record := Some 2\<rparr>"
    using gappy_eval by (simp add: evaluate)
  ultimately show ?thesis
    using Top_Next_enumerate [of gappy] Top_Next_enumerate [of table3]
      Top_Next_enumerate [of "gappy\<lparr>current_record := Some 2\<rparr>"] gappy_eval table3_eval
    by simp
qed

subsection \<open>The live counter\<close>

text \<open>
  Claim C6: for every sequence of successful Inserts and Deletes since the last
  \<^verbatim>\<open>Clean\<close>, \<^verbatim>\<open>Counter()\<close> equals the number of those Inserts minus the number of
  those Deletes. \<^verbatim>\<open>Delete\<close> does not test the flag of the node under the cursor: on the
  cleaned table, one Insert and two Deletes are three successful calls, after which no
  node is enabled, the difference is -1, and \<^verbatim>\<open>Counter()\<close>, documented as the number of
  available entries, returns 65535.
\<close>

theorem Counter_after_two_Deletes:
  "map_sum id fst (run byte_target [Call_Insert 10, Call_Delete, Call_Delete] (Clean table3))
     = Inr [True, True, True]
   \<and> filter enabled (nodes (snd (projr
        (run byte_target [Call_Insert 10, Call_Delete, Call_Delete] (Clean table3))))) = []
   \<and> uint (Counter (snd (projr
        (run byte_target [Call_Insert 10, Call_Delete, Call_Delete] (Clean table3))))) = 65535
   \<and> int (successes is_Insert [Call_Insert 10, Call_Delete, Call_Delete] [True, True, True])
      - int (successes is_Delete [Call_Insert 10, Call_Delete, Call_Delete] [True, True, True])
     = - 1"
  using table3_eval
  by (simp add: evaluate unsigned_minus_1_eq_mask mask_eq_exp_minus_1)

subsection \<open>The length of the chain\<close>

lemma Next_cursor_only: "snd (Next t) = t\<lparr>current_record := current_record (snd (Next t))\<rparr>"
proof (cases "first_record t \<noteq> None \<and> current_record t \<noteq> None")
  case True
  then obtain i where "first_record t \<noteq> None" "current_record t = Some i"
    by auto
  from Next_eq [OF this] show ?thesis by simp
next
  case False
  thus ?thesis by (subst (1 2) Next.simps) auto
qed

lemma Top_cursor_only: "snd (Top t) = t\<lparr>current_record := current_record (snd (Top t))\<rparr>"
proof -
  have "snd (Next (t\<lparr>current_record := Some 0\<rparr>))
        = t\<lparr>current_record := current_record (snd (Next (t\<lparr>current_record := Some 0\<rparr>)))\<rparr>"
    using Next_cursor_only [of "t\<lparr>current_record := Some 0\<rparr>"] by simp
  thus ?thesis
    by (simp add: Top_def first_record_def Let_def)
qed

lemma Next_frame [simp]:
  "nodes (snd (Next t)) = nodes t" "counter (snd (Next t)) = counter t"
  by (subst Next_cursor_only, simp)+

lemma Top_frame [simp]:
  "nodes (snd (Top t)) = nodes t" "counter (snd (Top t)) = counter t"
  by (subst Top_cursor_only, simp)+

lemma Clean_loop_length: "length (nodes (Clean_loop t i)) = length (nodes t)"
proof (induction t i rule: Clean_loop.induct)
  case (1 t i)
  let ?t' = "t\<lparr>nodes := (nodes t)[i := (nodes t ! i)\<lparr>enabled := False\<rparr>],
                current_record := next_ptr t i\<rparr>"
  show ?case
  proof (cases "next_ptr t i")
    case None
    thus ?thesis by (subst Clean_loop.simps) (simp add: Let_def)
  next
    case (Some j)
    hence "Clean_loop t i = Clean_loop ?t' j"
      by (subst Clean_loop.simps) (simp add: Let_def)
    moreover have "length (nodes (Clean_loop ?t' j)) = length (nodes ?t')"
      using Some by (intro "1.IH" [OF refl]) simp
    ultimately show ?thesis by simp
  qed
qed

lemma Clean_length: "length (nodes (Clean t)) = length (nodes t)"
  by (simp add: Clean_def Init_def Clean_loop_length split: option.split)

lemma GetTopLocation_nodes [simp]: "nodes (GetTopLocation P t) = nodes t"
  by (simp add: GetTopLocation_def Let_def)

lemma PutTopLocation_nodes [simp]: "nodes (PutTopLocation P t) = nodes t"
  by (simp add: PutTopLocation_def Let_def)

lemma CheckStorage_nodes [simp]: "nodes (snd (CheckStorage P t)) = nodes t"
  by (simp add: CheckStorage_def)

lemma SaveStorage_loop_nodes:
  "SaveStorage_loop P t sp pp = Inr t' \<Longrightarrow> nodes t' = nodes t"
proof (induction P t sp pp rule: SaveStorage_loop.induct)
  case (1 P t sp pp)
  from "1.prems" obtain x n where x: "xitem t = Some x" and n: "deref t (current_record t) = Some n"
    by (subst (asm) SaveStorage_loop.simps) (auto split: option.splits)
  let ?t1 = "t\<lparr>xitem := Some \<lparr>item = item n, enabled = enabled n\<rparr>\<rparr>"
  let ?t2 = "?t1\<lparr>eeprom := eeprom_Write P (eeprom ?t1) pp \<lparr>item = item n, enabled = enabled n\<rparr>\<rparr>"
  let ?sp = "IncCurrentLocation ?t2 sp"
  let ?pp = "GetLocationFromStatus P ?t2 ?sp"
  show ?case
  proof (cases "fst (Next ?t2)")
    case True
    with "1.prems" x n have "SaveStorage_loop P (snd (Next ?t2)) ?sp ?pp = Inr t'"
      by (subst (asm) SaveStorage_loop.simps) (simp add: Let_def)
    from "1.IH" [OF x n refl refl refl refl True this] show ?thesis
      by simp
  next
    case False
    with "1.prems" x n have "t' = snd (Next ?t2)"
      by (subst (asm) SaveStorage_loop.simps) (simp add: Let_def)
    thus ?thesis by simp
  qed
qed

lemma CheckStorage_nodes_eq: "CheckStorage P t = (b, t') \<Longrightarrow> nodes t' = nodes t"
  using CheckStorage_nodes [of P t] by simp

lemma SaveStorage_nodes:
  assumes "SaveStorage P t = Inr (ok, t')"
  shows "nodes t' = nodes t"
proof -
  obtain b t0 where c: "CheckStorage P t = (b, t0)"
    by (cases "CheckStorage P t")
  have n0: "nodes t0 = nodes t"
    using c by (rule CheckStorage_nodes_eq)
  show ?thesis
  proof (cases b)
    case False
    with assms c n0 show ?thesis
      by (simp add: SaveStorage_def)
  next
    case True
    with assms c n0 show ?thesis
      by (auto simp: SaveStorage_def Let_def
               split: sum.splits prod.splits if_splits
               dest!: SaveStorage_loop_nodes CheckStorage_nodes_eq)
  qed
qed

lemma Insert_length: "Insert x t = Inr (ok, t') \<Longrightarrow> length (nodes t') = length (nodes t)"
  by (auto simp: Insert_def Let_def split: option.splits if_splits)

lemma LoadStorage_loop_length:
  "LoadStorage_loop P count idx t sp pp = Inr (ok, t') \<Longrightarrow>
   length (nodes t') = length (nodes t)"
proof (induction P count idx t sp pp rule: LoadStorage_loop.induct)
  case (1 P count idx t sp pp)
  show ?case
  proof (cases "idx < count")
    case False
    with "1.prems" show ?thesis
      by (subst (asm) LoadStorage_loop.simps) simp
  next
    case True
    let ?r = "eeprom_Read P (eeprom t) pp"
    let ?t1 = "t\<lparr>xitem := Some ?r\<rparr>"
    from True "1.prems" obtain ok2 t2 where ins: "Insert (item ?r) ?t1 = Inr (ok2, t2)"
      by (subst (asm) LoadStorage_loop.simps) (auto simp: Let_def split: sum.splits)
    from Insert_length [OF ins] have l2: "length (nodes t2) = length (nodes t)"
      by simp
    show ?thesis
    proof (cases ok2)
      case False
      with True "1.prems" ins have "t' = t2"
        by (subst (asm) LoadStorage_loop.simps) (simp add: Let_def)
      with l2 show ?thesis by simp
    next
      case ok: True
      with True "1.prems" ins obtain i where i: "current_record t2 = Some i"
        by (subst (asm) LoadStorage_loop.simps) (auto simp: Let_def split: option.splits)
      let ?t3 = "t2\<lparr>nodes := (nodes t2)[i := (nodes t2 ! i)\<lparr>enabled := enabled ?r\<rparr>]\<rparr>"
      let ?sp = "IncCurrentLocation ?t3 sp"
      let ?pp = "GetLocationFromStatus P ?t3 ?sp"
      from True "1.prems" ins ok i
      have "LoadStorage_loop P count (Suc idx) ?t3 ?sp ?pp = Inr (ok, t')"
        by (subst (asm) LoadStorage_loop.simps) (simp add: Let_def)
      from "1.IH" [OF True refl refl ins refl ok i refl refl refl this] l2
      show ?thesis by simp
    qed
  qed
qed

lemma LoadStorage_length:
  assumes "LoadStorage P t = Inr (ok, t')"
  shows "length (nodes t') = length (nodes t)"
proof (cases "fst (CheckStorage P t)")
  case False
  with assms have "t' = snd (CheckStorage P t)"
    by (cases "CheckStorage P t") (auto simp: LoadStorage_def)
  thus ?thesis by simp
next
  case True
  with assms have "\<exists>c sp pp. LoadStorage_loop P c 0 (Clean (snd (CheckStorage P t))) sp pp
                     = Inr (ok, t')"
    by (cases "CheckStorage P t") (auto simp: LoadStorage_def Let_def)
  thus ?thesis
    by (auto dest!: LoadStorage_loop_length simp: Clean_length)
qed

lemma exec_length:
  assumes "exec P c t = Inr (ok, t')"
  shows "length (nodes t') = length (nodes t)"
proof (cases c)
  case (Call_Insert x)
  with assms show ?thesis by (auto dest: Insert_length)
next
  case Call_Select
  with assms show ?thesis by (auto split: sum.splits)
next
  case (Call_Update x)
  with assms show ?thesis by (auto simp: Update_def split: option.splits)
next
  case Call_Delete
  with assms show ?thesis by (auto simp: Delete_def split: option.splits)
next
  case Call_Clean
  with assms show ?thesis by (auto simp: Clean_length)
next
  case Call_Top
  with assms have "t' = snd (Top t)" by auto
  thus ?thesis by simp
next
  case Call_Next
  with assms have "t' = snd (Next t)" by auto
  thus ?thesis by simp
next
  case Call_SaveStorage
  with assms show ?thesis by (auto dest: SaveStorage_nodes)
next
  case Call_LoadStorage
  with assms show ?thesis by (auto dest: LoadStorage_length)
qed

lemma run_length:
  "run P cs t = Inr (oks, t') \<Longrightarrow> length (nodes t') = length (nodes t)"
proof (induction cs arbitrary: t oks)
  case Nil
  thus ?case by simp
next
  case (Cons c cs)
  from Cons.prems obtain ok t1 oks1 where
    e: "exec P c t = Inr (ok, t1)" and r: "run P cs t1 = Inr (oks1, t')"
    by (auto split: sum.splits)
  from exec_length [OF e] Cons.IH [OF r] show ?case
    by simp
qed

lemma InitBuffer_loop_length:
  "InitBuffer_loop max_items pool it t = (t2, pool2, it2) \<Longrightarrow>
   it < to_unsigned max_items \<Longrightarrow> current_record t2 \<noteq> None \<Longrightarrow>
   \<not> it2 < to_unsigned max_items \<Longrightarrow>
   length (nodes t2) = length (nodes t) + (to_unsigned max_items - it)"
proof (induction max_items pool it t rule: InitBuffer_loop.induct)
  case (1 max_items pool it t)
  have M: "to_unsigned max_items < 65536"
    by (simp add: to_unsigned_def)
  with "1.prems"(2) have it': "(it + 1) mod 65536 = it + 1"
    by simp
  show ?case
  proof (cases pool)
    case Nil
    with "1.prems" show ?thesis
      by (subst (asm) InitBuffer_loop.simps) auto
  next
    case (Cons b pool')
    let ?t' = "t\<lparr>nodes := nodes t @ [b], new_record := Some (length (nodes t)),
                  current_record := Some (length (nodes t))\<rparr>"
    show ?thesis
    proof (cases "it + 1 < to_unsigned max_items")
      case True
      with Cons "1.prems"(1) it'
      have "InitBuffer_loop max_items pool' (it + 1) ?t' = (t2, pool2, it2)"
        by (subst (asm) InitBuffer_loop.simps) (simp add: Let_def)
      from "1.IH" [OF Cons refl _ _ this True "1.prems"(3,4)] it' True
      have "length (nodes t2) = length (nodes ?t') + (to_unsigned max_items - (it + 1))"
        by simp
      with True show ?thesis by simp
    next
      case False
      with Cons "1.prems"(1) it' have "t2 = ?t'"
        by (subst (asm) InitBuffer_loop.simps) (simp add: Let_def)
      with False "1.prems"(2) show ?thesis by simp
    qed
  qed
qed

text \<open>
  Claim C4, as amended: a successful \<^verbatim>\<open>InitBuffer(capacity)\<close>, for a capacity of at
  least one, allocates exactly capacity+1 chained nodes (the capacity slots and a trailing
  node that \<^verbatim>\<open>Insert\<close> never fills), and no later operation (\<^verbatim>\<open>Insert\<close>, \<^verbatim>\<open>Select\<close>,
  \<^verbatim>\<open>Update\<close>, \<^verbatim>\<open>Delete\<close>, \<^verbatim>\<open>Clean\<close>, \<^verbatim>\<open>Top\<close>, \<^verbatim>\<open>Next\<close>, \<^verbatim>\<open>SaveStorage\<close>,
  \<^verbatim>\<open>LoadStorage\<close>) adds or frees a node: after any sequence of calls the chain still has
  capacity+1 nodes.
\<close>

theorem chain_length_fixed:
  assumes "InitBuffer max_items pool t = Inr (True, t1)"
    and "0 < max_items" and "max_items < 65536"
    and "run P cs t1 = Inr (oks, t2)"
  shows "length (nodes t1) = nat max_items + 1 \<and> length (nodes t2) = nat max_items + 1"
proof -
  have M: "to_unsigned max_items = nat max_items"
    using assms(2,3) by (simp add: to_unsigned_def)
  from assms(1) obtain b pool1 where pool: "pool = b # pool1" and e: "nodes t = []"
    by (auto simp: InitBuffer_def first_record_def split: if_splits list.splits)
  let ?t1 = "t\<lparr>nodes := [b], current_record := Some 0\<rparr>"
  obtain u pool2 it where l: "InitBuffer_loop max_items pool1 0 ?t1 = (u, pool2, it)"
    by (cases "InitBuffer_loop max_items pool1 0 ?t1") auto
  from assms(1) pool e l have u: "\<not> it < to_unsigned max_items" "current_record u \<noteq> None"
    "nodes t1 = nodes u"
    by (auto simp: InitBuffer_def first_record_def Let_def split: if_splits)
  from InitBuffer_loop_length [OF l _ u(2) u(1)] assms(2) M
  have "length (nodes u) = 1 + nat max_items"
    by simp
  with u(3) run_length [OF assms(4)] show ?thesis
    by simp
qed

theorem chain_length_fixed_witness:
  "InitBuffer 3 [raw_block, raw_block, raw_block, raw_block, raw_block] (XTable_new raw_object)
     = Inr (True, raw_table3)
   \<and> (0 :: int) < 3 \<and> (3 :: int) < 65536
   \<and> map_sum id fst
        (run byte_target
           [Call_Clean, Call_Insert 10, Call_Update 11, Call_Top, Call_Next, Call_Insert 12,
            Call_Delete, Call_Select, Call_SaveStorage, Call_LoadStorage] raw_table3)
       = Inr [True, True, True, True, False, True, True, False, False, False]
   \<and> length (nodes raw_table3) = 4
   \<and> length (nodes (snd (projr
        (run byte_target
           [Call_Clean, Call_Insert 10, Call_Update 11, Call_Top, Call_Next, Call_Insert 12,
            Call_Delete, Call_Select, Call_SaveStorage, Call_LoadStorage] raw_table3)))) = 4"
proof -
  let ?cs = "[Call_Clean, Call_Insert 10, Call_Update 11, Call_Top, Call_Next, Call_Insert 12,
              Call_Delete, Call_Select, Call_SaveStorage, Call_LoadStorage]"
  obtain t2 where r: "run byte_target ?cs raw_table3
      = Inr ([True, True, True, True, False, True, True, False, False, False], t2)"
    using raw_table3_eval by (simp add: raw_block_def evaluate)
  from raw_table3_eval
  have i: "InitBuffer 3 [raw_block, raw_block, raw_block, raw_block, raw_block]
             (XTable_new raw_object) = Inr (True, raw_table3)"
    by simp
  from chain_length_fixed [OF i _ _ r] i r show ?thesis
    by simp
qed

text \<open>
  Claim C4 as stated makes the chain exactly capacity nodes long. \<^verbatim>\<open>InitBuffer(3)\<close>
  allocates the first node and then three more in its loop.
\<close>

theorem InitBuffer_allocates_one_more:
  "InitBuffer 3 [raw_block, raw_block, raw_block, raw_block, raw_block] (XTable_new raw_object)
     = Inr (True, raw_table3)
   \<and> length (nodes raw_table3) = 3 + 1
   \<and> length (nodes raw_table3) \<noteq> 3"
  using raw_table3_eval by simp

subsection \<open>The round trip through the storage\<close>

text \<open>
  Claim C1: for every sequence of Insert, Delete and Update calls on a table attached to
  a formatted region, \<^verbatim>\<open>SaveStorage()\<close>, \<^verbatim>\<open>Clean()\<close> and \<^verbatim>\<open>LoadStorage()\<close> succeed
  and reconstruct the enabled items. \<^verbatim>\<open>SaveStorage\<close> writes every enabled item and then
  stores the live counter as the number of items to load, and \<^verbatim>\<open>Delete\<close> decrements
  that counter also on a node that is already disabled. After two Inserts and two Deletes
  on the table of the example, attached to its freshly formatted region, the first payload
  is still enabled and the counter is 0: the three calls succeed, the stored count is 0
  and the reloaded table has no enabled item.
\<close>

theorem double_Delete_loses_item:
  "map_sum id fst
     (run byte_target
        [Call_Insert 10, Call_Insert 11, Call_Delete, Call_Delete,
         Call_SaveStorage, Call_Clean, Call_LoadStorage] stored3)
     = Inr [True, True, True, True, True, True, True]
   \<and> filter enabled (nodes (snd (projr
        (run byte_target [Call_Insert 10, Call_Insert 11, Call_Delete, Call_Delete] stored3))))
     = [\<lparr>item = 10, enabled = True\<rparr>]
   \<and> Counter (snd (projr
        (run byte_target [Call_Insert 10, Call_Insert 11, Call_Delete, Call_Delete] stored3)))
     = 0
   \<and> filter enabled (nodes (snd (projr
        (run byte_target
           [Call_Insert 10, Call_Insert 11, Call_Delete, Call_Delete,
            Call_SaveStorage, Call_Clean, Call_LoadStorage] stored3))))
     = []"
  by (simp add: concrete_defs evaluate)

end
